theory Spec2Isabelle
  imports Complex_Main "HOL-Library.Sublist" "HOL-Library.Char_ord" "HOL-Library.List_Lexorder"
begin

section \<open>Data model\<close>

text \<open>
  A pandas DataFrame is modelled as the list of its column labels and the list of its rows
  in positional order. Every DataFrame the pipeline handles carries a fresh range index
  (\<^verbatim>\<open>pd.concat(..., ignore_index=True)\<close> in the loader,
  \<^verbatim>\<open>reset_index(drop=True)\<close> in the cleaner), so the index label of a row is
  its position and is not stored. A cell is \<open>None\<close> when it is missing (NaN) and
  \<open>Some v\<close> otherwise; values are real numbers (timestamps and comment categories are
  abstracted to numbers as well, no arithmetic is ever done on them). Arithmetic is
  exact: the rounding of floating-point operations is not modelled. The \<open>Region\<close>
  column is attached by the loader to every row and is never missing.
\<close>

datatype column =
  Timestamp | GHI | DNI | DHI | ModA | ModB | Tamb | RH | WS | WSgust | WD
  | Precipitation | Cleaning | Comments

type_synonym cell = "real option"

record row =
  region :: string
  cells :: "column \<Rightarrow> cell"

record frame =
  columns :: "column list"
  rows :: "row list"

text \<open>The exceptions the pipeline raises or lets through, with their message or key.\<close>

datatype error =
  KeyError string | ValueError string | FileNotFoundError string | ParserError string

subsection \<open>Config\<close>

definition SOLAR_COLS :: "column list" where
  "SOLAR_COLS = [GHI, DNI, DHI, ModA, ModB]"


section \<open>pandas operations used by the pipeline\<close>

text \<open>\<^verbatim>\<open>df.drop(columns=c, errors='ignore')\<close>: the column disappears; its cells are
  blanked so that an absent column never carries data.\<close>

definition drop_column :: "column \<Rightarrow> frame \<Rightarrow> frame" where
  "drop_column c d =
     d\<lparr>columns := removeAll c (columns d),
       rows := map (\<lambda>r. r\<lparr>cells := (cells r)(c := None)\<rparr>) (rows d)\<rparr>"

text \<open>\<^verbatim>\<open>df.ffill()\<close>: one scan in row order, carrying for every column the last value seen.\<close>

definition fill_row :: "(column \<Rightarrow> cell) \<Rightarrow> row \<Rightarrow> row" where
  "fill_row prev r =
     r\<lparr>cells := (\<lambda>c. case cells r c of None \<Rightarrow> prev c | Some v \<Rightarrow> Some v)\<rparr>"

fun ffill_rows :: "(column \<Rightarrow> cell) \<Rightarrow> row list \<Rightarrow> row list" where
  "ffill_rows prev [] = []"
| "ffill_rows prev (r # rs) = fill_row prev r # ffill_rows (cells (fill_row prev r)) rs"

definition ffill :: "frame \<Rightarrow> frame" where
  "ffill d = d\<lparr>rows := ffill_rows (\<lambda>c. None) (rows d)\<rparr>"

text \<open>\<^verbatim>\<open>Series.clip(lower, upper)\<close>: a missing cell stays missing.\<close>

definition clip :: "real option \<Rightarrow> real option \<Rightarrow> cell \<Rightarrow> cell" where
  "clip lower upper x =
     map_option (\<lambda>v. let v1 = (case lower of None \<Rightarrow> v | Some l \<Rightarrow> max l v)
                      in (case upper of None \<Rightarrow> v1 | Some u \<Rightarrow> min u v1)) x"

text \<open>\<^verbatim>\<open>df[c] = f(df[c])\<close>: column assignment, cell by cell.\<close>

definition assign_column :: "column \<Rightarrow> (cell \<Rightarrow> cell) \<Rightarrow> frame \<Rightarrow> frame" where
  "assign_column c f d =
     d\<lparr>rows := map (\<lambda>r. r\<lparr>cells := (cells r)(c := f (cells r c))\<rparr>) (rows d)\<rparr>"

text \<open>The non-missing values of a column, in row order.\<close>

definition column_values :: "column \<Rightarrow> row list \<Rightarrow> real list" where
  "column_values c rs = List.map_filter (\<lambda>r. cells r c) rs"

text \<open>\<^verbatim>\<open>Series.quantile(q)\<close> with the default linear interpolation: missing values are
  skipped, the result is NaN when no value is left, and otherwise it is read at the
  fractional position \<open>(n - 1) * q\<close> of the sorted values.\<close>

definition quantile :: "real list \<Rightarrow> real \<Rightarrow> real option" where
  "quantile xs q =
     (if xs = [] then None
      else let s = sort xs;
               n = length s;
               pos = real (n - 1) * q;
               lo = nat \<lfloor>pos\<rfloor>;
               hi = min (lo + 1) (n - 1)
           in Some (s ! lo + (s ! hi - s ! lo) * (pos - real lo)))"

section \<open>The Cleaner\<close>

text \<open>The mask of lines 55-56 of \<^verbatim>\<open>data_cleaning.py\<close>: a comparison with NaN is false,
  so a row whose cell is missing, or any row when the quartiles are NaN, is not kept.
  The fences are exact here: a value that lies on a fence is kept, where the code, whose
  fences carry the rounding of floating-point arithmetic, may drop it. The example data
  below have no value on a fence.\<close>

definition within_fences :: "real option \<Rightarrow> real option \<Rightarrow> cell \<Rightarrow> bool" where
  "within_fences q1 q3 x =
     (case (q1, q3, x) of
        (Some a, Some b, Some v) \<Rightarrow> a - 1.5 * (b - a) \<le> v \<and> v \<le> b + 1.5 * (b - a)
      | _ \<Rightarrow> False)"

text \<open>One round of the loop of lines 50-56: the quartiles of the column as it is now,
  and the rows inside the fences.\<close>

definition remove_outliers :: "column \<Rightarrow> frame \<Rightarrow> frame" where
  "remove_outliers col d =
     (if col \<in> set (columns d) then
        let q1 = quantile (column_values col (rows d)) 0.25;
            q3 = quantile (column_values col (rows d)) 0.75
        in d\<lparr>rows := filter (\<lambda>r. within_fences q1 q3 (cells r col)) (rows d)\<rparr>
      else d)"

definition clip_solar :: "column \<Rightarrow> frame \<Rightarrow> frame" where
  "clip_solar col d =
     (if col \<in> set (columns d) then assign_column col (clip (Some 0) None) d else d)"

definition clip_rh :: "frame \<Rightarrow> frame" where
  "clip_rh d =
     (if RH \<in> set (columns d) then assign_column RH (clip (Some 0) (Some 100)) d else d)"

definition OUTLIER_COLS :: "column list" where
  "OUTLIER_COLS = SOLAR_COLS @ [Tamb, WS]"

text \<open>\<^verbatim>\<open>clean_data\<close>, lines 39-47: drop the comments, forward fill, clip the solar
  columns at 0 and RH to [0, 100], each clipping only if the column is there.\<close>

definition impute_and_clip :: "frame \<Rightarrow> frame" where
  "impute_and_clip d = clip_rh (fold clip_solar SOLAR_COLS (ffill (drop_column Comments d)))"

text \<open>\<^verbatim>\<open>clean_data\<close>: then the outlier pass of lines 50-56, one column after the other
  on what the columns before have left. \<^verbatim>\<open>reset_index(drop=True)\<close> renumbers the rows,
  which are numbered by their position here.\<close>

definition clean_data :: "frame \<Rightarrow> frame" where
  "clean_data d = fold remove_outliers OUTLIER_COLS (impute_and_clip d)"

section \<open>Aggregations\<close>

text \<open>Reductions of a column skip missing cells, as pandas does by default.\<close>

definition present :: "cell list \<Rightarrow> real list" where
  "present xs = List.map_filter id xs"

definition mean :: "cell list \<Rightarrow> cell" where
  "mean xs = (if present xs = [] then None
              else Some (sum_list (present xs) / real (length (present xs))))"

text \<open>Sample standard deviation (\<open>ddof = 1\<close>): NaN for fewer than two values.\<close>

definition std :: "cell list \<Rightarrow> cell" where
  "std xs =
     (let vs = present xs; n = length vs
      in if n < 2 then None
         else let m = sum_list vs / real n
              in Some (sqrt (sum_list (map (\<lambda>v. (v - m)\<^sup>2) vs) / real (n - 1))))"

definition median :: "cell list \<Rightarrow> cell" where
  "median xs =
     (let s = sort (present xs); n = length s
      in if n = 0 then None
         else if odd n then Some (s ! (n div 2))
         else Some ((s ! (n div 2 - 1) + s ! (n div 2)) / 2))"

definition total :: "cell list \<Rightarrow> cell" where
  "total xs = Some (sum_list (present xs))"

definition maximum :: "cell list \<Rightarrow> cell" where
  "maximum xs = (if present xs = [] then None else Some (Max (set (present xs))))"

text \<open>\<^verbatim>\<open>round(2)\<close>: numpy rounds \<open>x * 100\<close> to the nearest integer, halves to the even
  one, and divides by 100. The product is exact here, where numpy rounds the floating-point
  product: a value within a floating-point error of a half may round the other way in the
  code. The values used below are far from a half.\<close>

definition rint :: "real \<Rightarrow> real" where
  "rint x =
     (let f = \<lfloor>x\<rfloor>; d = x - of_int f
      in if d < 1/2 then of_int f
         else if 1/2 < d then of_int (f + 1)
         else if even f then of_int f else of_int (f + 1))"

definition round2 :: "cell \<Rightarrow> cell" where
  "round2 x = map_option (\<lambda>v. rint (v * 100) / 100) x"

text \<open>\<^verbatim>\<open>groupby('Region')\<close>: one group per region, the groups in sorted key order, the
  members of a group in row order.\<close>

definition groupby :: "('a \<Rightarrow> string) \<Rightarrow> 'a list \<Rightarrow> (string \<times> 'a list) list" where
  "groupby key xs = map (\<lambda>k. (k, filter (\<lambda>x. key x = k) xs)) (sort (remdups (map key xs)))"

text \<open>\<^verbatim>\<open>Series.idxmax()\<close> and \<^verbatim>\<open>Series.idxmin()\<close>: NaN entries are skipped and the first
  label reaching the extremum wins; an empty series raises. On a series of NaN only, pandas
  before 3.0 returns a NaN label and pandas from 3.0 on raises; the repository pins no
  release, so the release is a parameter.\<close>

datatype pandas = Before_3 | From_3

fun arg_best :: "(real \<Rightarrow> real \<Rightarrow> bool) \<Rightarrow> (string \<times> real) option \<Rightarrow> (string \<times> cell) list
                 \<Rightarrow> (string \<times> real) option" where
  "arg_best better best [] = best"
| "arg_best better best ((k, None) # xs) = arg_best better best xs"
| "arg_best better None ((k, Some v) # xs) = arg_best better (Some (k, v)) xs"
| "arg_best better (Some (k0, v0)) ((k, Some v) # xs) =
     (if better v v0 then arg_best better (Some (k, v)) xs
      else arg_best better (Some (k0, v0)) xs)"

definition all_nan :: "pandas \<Rightarrow> error + string option" where
  "all_nan pd = (case pd of Before_3 \<Rightarrow> Inr None
                          | From_3 \<Rightarrow> Inl (ValueError ''Encountered all NA values''))"

definition idxmax :: "pandas \<Rightarrow> (string \<times> cell) list \<Rightarrow> error + string option" where
  "idxmax pd xs =
     (if xs = [] then Inl (ValueError ''attempt to get argmax of an empty sequence'')
      else case arg_best (\<lambda>v v0. v0 < v) None xs of
             None \<Rightarrow> all_nan pd
           | Some (k, v) \<Rightarrow> Inr (Some k))"

definition idxmin :: "pandas \<Rightarrow> (string \<times> cell) list \<Rightarrow> error + string option" where
  "idxmin pd xs =
     (if xs = [] then Inl (ValueError ''attempt to get argmin of an empty sequence'')
      else case arg_best (\<lambda>v v0. v < v0) None xs of
             None \<Rightarrow> all_nan pd
           | Some (k, v) \<Rightarrow> Inr (Some k))"

section \<open>The Cleaning-Impact Analyzer\<close>

record improvement =
  Region :: string
  ModA_Improvement :: cell
  ModB_Improvement :: cell

text \<open>Subtraction of two cells propagates NaN.\<close>

definition minus_cell :: "cell \<Rightarrow> cell \<Rightarrow> cell" where
  "minus_cell a b = (case (a, b) of (Some x, Some y) \<Rightarrow> Some (x - y) | _ \<Rightarrow> None)"

text \<open>\<^verbatim>\<open>df.loc[a:b, c]\<close> on a range index: the cells of column \<open>c\<close> in the rows labelled
  \<open>a\<close> to \<open>b\<close>, both ends included.\<close>

definition loc_slice :: "nat \<Rightarrow> nat \<Rightarrow> column \<Rightarrow> row list \<Rightarrow> cell list" where
  "loc_slice a b c rs = map (\<lambda>r. cells r c) (take (Suc b - a) (drop a rs))"

definition clean_events :: "frame \<Rightarrow> nat list" where
  "clean_events d = filter (\<lambda>i. cells (rows d ! i) Cleaning = Some 1) [0 ..< length (rows d)]"

definition qualifies :: "frame \<Rightarrow> nat \<Rightarrow> bool" where
  "qualifies d idx \<longleftrightarrow> int idx > 3 \<and> int idx < int (length (rows d)) - 3"

definition event_improvement :: "frame \<Rightarrow> nat \<Rightarrow> improvement" where
  "event_improvement d idx =
     \<lparr>Region = region (rows d ! idx),
      ModA_Improvement = minus_cell (mean (loc_slice (idx + 1) (idx + 3) ModA (rows d)))
                                    (mean (loc_slice (idx - 3) (idx - 1) ModA (rows d))),
      ModB_Improvement = minus_cell (mean (loc_slice (idx + 1) (idx + 3) ModB (rows d)))
                                    (mean (loc_slice (idx - 3) (idx - 1) ModB (rows d)))\<rparr>"

text \<open>The loop of lines 32-40 of \<^verbatim>\<open>analysis.py\<close>; selecting \<^verbatim>\<open>['ModA', 'ModB']\<close> raises
  when one of them is not a column.\<close>

fun impact_loop :: "frame \<Rightarrow> nat list \<Rightarrow> improvement list \<Rightarrow> error + improvement list" where
  "impact_loop d [] results = Inr results"
| "impact_loop d (idx # rest) results =
     (if qualifies d idx then
        if ModA \<notin> set (columns d) then Inl (KeyError ''ModA'')
        else if ModB \<notin> set (columns d) then Inl (KeyError ''ModB'')
        else impact_loop d rest (results @ [event_improvement d idx])
      else impact_loop d rest results)"

text \<open>\<^verbatim>\<open>pd.DataFrame(results).groupby('Region').mean()\<close>: a DataFrame built from an empty
  list has no column at all, so grouping it by \<^verbatim>\<open>'Region'\<close> raises \<^verbatim>\<open>KeyError\<close>.\<close>

definition group_mean :: "improvement list \<Rightarrow> error + (string \<times> cell \<times> cell) list" where
  "group_mean results =
     (if results = [] then Inl (KeyError ''Region'')
      else Inr (map (\<lambda>(k, g). (k, mean (map ModA_Improvement g), mean (map ModB_Improvement g)))
                    (groupby Region results)))"

definition analyze_cleaning_impact :: "frame \<Rightarrow> error + (string \<times> cell \<times> cell) list" where
  "analyze_cleaning_impact d =
     (if Cleaning \<notin> set (columns d) then Inl (KeyError ''Cleaning'')
      else case impact_loop d (clean_events d) [] of
             Inl e \<Rightarrow> Inl e
           | Inr results \<Rightarrow> group_mean results)"

section \<open>The Recommendation Engine\<close>

record analysis_row =
  GHI_mean :: cell
  GHI_std :: cell
  DNI_median :: cell
  Tamb_mean :: cell
  Tamb_std :: cell
  Precipitation_sum :: cell
  WSgust_max :: cell

record recommendation =
  Best_Overall_Potential :: "string option"
  Most_Stable_Radiation :: "string option"
  Lowest_Maintenance_Risk :: "string option"
  Optimal_CSP_Location :: "string option"

fun column_name :: "column \<Rightarrow> string" where
  "column_name Timestamp = ''Timestamp''"
| "column_name GHI = ''GHI''"
| "column_name DNI = ''DNI''"
| "column_name DHI = ''DHI''"
| "column_name ModA = ''ModA''"
| "column_name ModB = ''ModB''"
| "column_name Tamb = ''Tamb''"
| "column_name RH = ''RH''"
| "column_name WS = ''WS''"
| "column_name WSgust = ''WSgust''"
| "column_name WD = ''WD''"
| "column_name Precipitation = ''Precipitation''"
| "column_name Cleaning = ''Cleaning''"
| "column_name Comments = ''Comments''"

definition column_cells :: "column \<Rightarrow> row list \<Rightarrow> cell list" where
  "column_cells c rs = map (\<lambda>r. cells r c) rs"

text \<open>One row of \<^verbatim>\<open>df.groupby('Region').agg({...}).round(2)\<close>, the table of
  \<^verbatim>\<open>generate_recommendations\<close> in \<^verbatim>\<open>src/analysis.py\<close>.\<close>

definition aggregate :: "row list \<Rightarrow> analysis_row" where
  "aggregate g =
     \<lparr>GHI_mean = round2 (mean (column_cells GHI g)),
      GHI_std = round2 (std (column_cells GHI g)),
      DNI_median = round2 (median (column_cells DNI g)),
      Tamb_mean = round2 (mean (column_cells Tamb g)),
      Tamb_std = round2 (std (column_cells Tamb g)),
      Precipitation_sum = round2 (total (column_cells Precipitation g)),
      WSgust_max = round2 (maximum (column_cells WSgust g))\<rparr>"

definition analysis_table :: "frame \<Rightarrow> (string \<times> analysis_row) list" where
  "analysis_table d = map (\<lambda>(k, g). (k, aggregate g)) (groupby region (rows d))"

text \<open>One row of \<^verbatim>\<open>df.groupby('Region').agg({...})\<close>, the table of the copy of
  \<^verbatim>\<open>generate_recommendations\<close> in \<^verbatim>\<open>scripts/app.py\<close>, which does not round.\<close>

definition app_aggregate :: "row list \<Rightarrow> analysis_row" where
  "app_aggregate g =
     \<lparr>GHI_mean = mean (column_cells GHI g),
      GHI_std = std (column_cells GHI g),
      DNI_median = median (column_cells DNI g),
      Tamb_mean = mean (column_cells Tamb g),
      Tamb_std = std (column_cells Tamb g),
      Precipitation_sum = total (column_cells Precipitation g),
      WSgust_max = maximum (column_cells WSgust g)\<rparr>"

definition app_analysis_table :: "frame \<Rightarrow> (string \<times> analysis_row) list" where
  "app_analysis_table d = map (\<lambda>(k, g). (k, app_aggregate g)) (groupby region (rows d))"

definition series :: "(analysis_row \<Rightarrow> cell) \<Rightarrow> (string \<times> analysis_row) list
                      \<Rightarrow> (string \<times> cell) list" where
  "series f analysis = map (\<lambda>(k, a). (k, f a)) analysis"

text \<open>The dictionary both functions return, its four entries computed in this order.\<close>

definition recommend :: "pandas \<Rightarrow> (string \<times> analysis_row) list \<Rightarrow> error + recommendation" where
  "recommend pd analysis =
     (case idxmax pd (series GHI_mean analysis) of
        Inl e \<Rightarrow> Inl e
      | Inr r1 \<Rightarrow>
         (case idxmin pd (series GHI_std analysis) of
            Inl e \<Rightarrow> Inl e
          | Inr r2 \<Rightarrow>
             (case idxmin pd (series Precipitation_sum analysis) of
                Inl e \<Rightarrow> Inl e
              | Inr r3 \<Rightarrow>
                 (case idxmax pd (series DNI_median analysis) of
                    Inl e \<Rightarrow> Inl e
                  | Inr r4 \<Rightarrow>
                      Inr \<lparr>Best_Overall_Potential = r1, Most_Stable_Radiation = r2,
                           Lowest_Maintenance_Risk = r3, Optimal_CSP_Location = r4\<rparr>))))"

text \<open>\<^verbatim>\<open>agg\<close> raises when a column it names is not there.\<close>

definition generate_recommendations :: "pandas \<Rightarrow> frame \<Rightarrow> error + recommendation" where
  "generate_recommendations pd d =
     (case filter (\<lambda>c. c \<notin> set (columns d)) [GHI, DNI, Tamb, Precipitation, WSgust] of
        c # cs \<Rightarrow> Inl (KeyError (column_name c))
      | [] \<Rightarrow> recommend pd (analysis_table d))"

definition app_generate_recommendations :: "pandas \<Rightarrow> frame \<Rightarrow> error + recommendation" where
  "app_generate_recommendations pd d =
     (case filter (\<lambda>c. c \<notin> set (columns d)) [GHI, DNI, Tamb, Precipitation, WSgust] of
        c # cs \<Rightarrow> Inl (KeyError (column_name c))
      | [] \<Rightarrow> recommend pd (app_analysis_table d))"

section \<open>The Loader\<close>










section \<open>The Quality Reporter\<close>

record report_row =
  Missing :: nat
  Zeros :: nat
  Negatives :: "nat option"
  Out_of_Range :: "nat option"

type_synonym report = "(string \<times> report_row) list"

text \<open>Timestamps and comments are not of a numeric dtype: they are never equal to 0 and
  have no count of negatives.\<close>

definition numeric :: "column \<Rightarrow> bool" where
  "numeric c \<longleftrightarrow> c \<noteq> Timestamp \<and> c \<noteq> Comments"

definition count_cells :: "(cell \<Rightarrow> bool) \<Rightarrow> column \<Rightarrow> row list \<Rightarrow> nat" where
  "count_cells P c rs = length (filter (\<lambda>r. P (cells r c)) rs)"

text \<open>The three counts are Series over different labels (the count of negatives has the
  numeric columns only, and \<open>Region\<close> is not numeric), so the DataFrame built from them has
  the union of the labels, sorted.\<close>

definition initial_report :: "frame \<Rightarrow> report" where
  "initial_report df =
     sort_key fst (map (\<lambda>c. (column_name c,
           \<lparr>Missing = count_cells (\<lambda>x. x = None) c (rows df),
            Zeros = (if numeric c then count_cells (\<lambda>x. x = Some 0) c (rows df) else 0),
            Negatives = (if numeric c
                         then Some (count_cells (\<lambda>x. case x of None \<Rightarrow> False | Some v \<Rightarrow> v < 0)
                                      c (rows df))
                         else None),
            Out_of_Range = None\<rparr>)) (columns df)
     @ [(''Region'', \<lparr>Missing = 0, Zeros = 0, Negatives = None, Out_of_Range = None\<rparr>)])"

definition ranges :: "(column \<times> real \<times> real) list" where
  "ranges = [(GHI, 0, 1500), (RH, 0, 100), (Tamb, - 20, 60)]"

definition out_of_range :: "real \<Rightarrow> real \<Rightarrow> cell \<Rightarrow> bool" where
  "out_of_range min_val max_val x =
     (case x of None \<Rightarrow> False | Some v \<Rightarrow> v < min_val \<or> max_val < v)"

text \<open>\<^verbatim>\<open>report.loc[col, 'Out of Range'] = n\<close>.\<close>

definition set_out_of_range :: "string \<Rightarrow> nat \<Rightarrow> report \<Rightarrow> report" where
  "set_out_of_range label n rep =
     map (\<lambda>(l, r). if l = label then (l, r\<lparr>Out_of_Range := Some n\<rparr>) else (l, r)) rep"

definition range_step :: "frame \<Rightarrow> column \<times> real \<times> real \<Rightarrow> report \<Rightarrow> report" where
  "range_step df = (\<lambda>(col, min_val, max_val) rep.
     if col \<in> set (columns df)
     then set_out_of_range (column_name col)
            (count_cells (out_of_range min_val max_val) col (rows df)) rep
     else rep)"

definition generate_quality_report :: "frame \<Rightarrow> report" where
  "generate_quality_report df = fold (range_step df) ranges (initial_report df)"

section \<open>Objects and mutation\<close>

text \<open>
  To say which objects a stage writes to, DataFrames live in a store and are named by
  their address. A pandas method that returns a new DataFrame allocates; an item
  assignment (\<^verbatim>\<open>df[col] = ...\<close>, \<^verbatim>\<open>report.loc[...] = ...\<close>) overwrites the object at
  the address it is applied to.
\<close>

type_synonym addr = nat

record store =
  frames :: "frame list"
  reports :: "report list"

definition new_frame :: "frame \<Rightarrow> store \<Rightarrow> addr \<times> store" where
  "new_frame f s = (length (frames s), s\<lparr>frames := frames s @ [f]\<rparr>)"

definition new_report :: "report \<Rightarrow> store \<Rightarrow> addr \<times> store" where
  "new_report r s = (length (reports s), s\<lparr>reports := reports s @ [r]\<rparr>)"

definition frame_at :: "store \<Rightarrow> addr \<Rightarrow> frame" where
  "frame_at s a = frames s ! a"

definition write_frame :: "addr \<Rightarrow> frame \<Rightarrow> store \<Rightarrow> store" where
  "write_frame a f s = s\<lparr>frames := (frames s)[a := f]\<rparr>"

definition write_report :: "addr \<Rightarrow> report \<Rightarrow> store \<Rightarrow> store" where
  "write_report a r s = s\<lparr>reports := (reports s)[a := r]\<rparr>"

text \<open>\<^verbatim>\<open>generate_quality_report(df)\<close>: the three counts build a new report object, which
  the loop over \<open>ranges\<close> then fills in place.\<close>

definition store_generate_quality_report :: "addr \<Rightarrow> store \<Rightarrow> addr \<times> store" where
  "store_generate_quality_report df s =
     (let (report, s1) = new_report (initial_report (frame_at s df)) s
      in (report,
          fold (\<lambda>rng s'. write_report report (range_step (frame_at s' df) rng (reports s' ! report)) s')
               ranges s1))"

text \<open>\<^verbatim>\<open>clean_data(df)\<close>: \<^verbatim>\<open>drop\<close> and \<^verbatim>\<open>ffill\<close> each return a new DataFrame;
  the clipping loops assign into \<^verbatim>\<open>df_clean\<close>; every boolean-mask selection rebinds
  \<^verbatim>\<open>df_clean\<close> to a new DataFrame; \<^verbatim>\<open>reset_index\<close> returns a new one.\<close>

definition store_clip_solar :: "addr \<Rightarrow> column \<Rightarrow> store \<Rightarrow> store" where
  "store_clip_solar df_clean col s =
     (if col \<in> set (columns (frame_at s df_clean))
      then write_frame df_clean (assign_column col (clip (Some 0) None) (frame_at s df_clean)) s
      else s)"

definition store_clip_rh :: "addr \<Rightarrow> store \<Rightarrow> store" where
  "store_clip_rh df_clean s =
     (if RH \<in> set (columns (frame_at s df_clean))
      then write_frame df_clean
             (assign_column RH (clip (Some 0) (Some 100)) (frame_at s df_clean)) s
      else s)"

definition store_remove_outliers :: "column \<Rightarrow> addr \<times> store \<Rightarrow> addr \<times> store" where
  "store_remove_outliers col = (\<lambda>(df_clean, s).
     if col \<in> set (columns (frame_at s df_clean))
     then new_frame (remove_outliers col (frame_at s df_clean)) s
     else (df_clean, s))"

definition store_clean_data :: "addr \<Rightarrow> store \<Rightarrow> addr \<times> store" where
  "store_clean_data df s =
     (let (dropped, s1) = new_frame (drop_column Comments (frame_at s df)) s;
          (df_clean, s2) = new_frame (ffill (frame_at s1 dropped)) s1;
          s3 = fold (store_clip_solar df_clean) SOLAR_COLS s2;
          s4 = store_clip_rh df_clean s3;
          (df_clean', s5) = fold store_remove_outliers OUTLIER_COLS (df_clean, s4)
      in new_frame (frame_at s5 df_clean') s5)"

section \<open>Predicates used in the statements\<close>

definition lower_bounded :: "real \<Rightarrow> column \<Rightarrow> row list \<Rightarrow> bool" where
  "lower_bounded l c rs \<longleftrightarrow> (\<forall>r \<in> set rs. \<forall>v. cells r c = Some v \<longrightarrow> l \<le> v)"

definition upper_bounded :: "real \<Rightarrow> column \<Rightarrow> row list \<Rightarrow> bool" where
  "upper_bounded u c rs \<longleftrightarrow> (\<forall>r \<in> set rs. \<forall>v. cells r c = Some v \<longrightarrow> v \<le> u)"

text \<open>A list of rows is gapless when forward fill has nothing to do on it: no cell is
  missing below a value of its column (\<open>prev\<close> holds the cells of the row above).\<close>

fun gapless :: "(column \<Rightarrow> cell) \<Rightarrow> row list \<Rightarrow> bool" where
  "gapless prev [] \<longleftrightarrow> True"
| "gapless prev (r # rs) \<longleftrightarrow> (\<forall>c. cells r c = None \<longrightarrow> prev c = None) \<and> gapless (cells r) rs"

text \<open>What the first four steps of the Cleaner establish.\<close>

definition imputed :: "frame \<Rightarrow> bool" where
  "imputed d \<longleftrightarrow>
     Comments \<notin> set (columns d) \<and>
     (\<forall>r \<in> set (rows d). cells r Comments = None) \<and>
     gapless (\<lambda>c. None) (rows d) \<and>
     (\<forall>c \<in> set SOLAR_COLS. c \<in> set (columns d) \<longrightarrow> lower_bounded 0 c (rows d)) \<and>
     (RH \<in> set (columns d) \<longrightarrow> lower_bounded 0 RH (rows d) \<and> upper_bounded 100 RH (rows d))"

text \<open>The frame on which the outlier pass of the \<open>k\<close>-th checked column computes its
  quartiles: imputed, clipped, and filtered on the columns before it.\<close>

definition before_pass :: "nat \<Rightarrow> frame \<Rightarrow> frame" where
  "before_pass k d = fold remove_outliers (take k OUTLIER_COLS) (impute_and_clip d)"

text \<open>Forward fill and clipping seen on one column.\<close>

fun ffill_cells :: "cell \<Rightarrow> cell list \<Rightarrow> cell list" where
  "ffill_cells prev [] = []"
| "ffill_cells prev (x # xs) =
     (case x of None \<Rightarrow> prev | Some v \<Rightarrow> Some v)
       # ffill_cells (case x of None \<Rightarrow> prev | Some v \<Rightarrow> Some v) xs"

definition column_clip :: "column list \<Rightarrow> column \<Rightarrow> cell \<Rightarrow> cell" where
  "column_clip cols c x =
     (if c \<in> set cols \<and> c \<in> set SOLAR_COLS then clip (Some 0) None x
      else if c \<in> set cols \<and> c = RH then clip (Some 0) (Some 100) x
      else x)"

definition constant_column :: "column \<Rightarrow> row list \<Rightarrow> bool" where
  "constant_column c rs \<longleftrightarrow> (\<exists>v. \<forall>r \<in> set rs. cells r c = Some v)"

text \<open>The most recent non-missing value of a list of cells, if there is one.\<close>

definition last_valid :: "cell list \<Rightarrow> cell" where
  "last_valid xs = (if present xs = [] then None else Some (last (present xs)))"





text \<open>Entries of a series compared with a value \<open>v\<close>, through a key that is the identity
  for a maximum and the negation for a minimum.\<close>

definition worse_or_equal :: "(real \<Rightarrow> real) \<Rightarrow> real \<Rightarrow> (string \<times> cell) list \<Rightarrow> bool" where
  "worse_or_equal key v xs \<longleftrightarrow> (\<forall>k w. (k, Some w) \<in> set xs \<longrightarrow> key w \<le> key v)"

definition strictly_worse :: "(real \<Rightarrow> real) \<Rightarrow> real \<Rightarrow> (string \<times> cell) list \<Rightarrow> bool" where
  "strictly_worse key v xs \<longleftrightarrow> (\<forall>k w. (k, Some w) \<in> set xs \<longrightarrow> key w < key v)"

text \<open>The regions of a frame, the rows of one region, and its row of the aggregate table.\<close>

definition regions :: "frame \<Rightarrow> string set" where
  "regions d = region ` set (rows d)"

definition region_rows :: "frame \<Rightarrow> string \<Rightarrow> row list" where
  "region_rows d r = filter (\<lambda>x. region x = r) (rows d)"

definition region_aggregate :: "frame \<Rightarrow> string \<Rightarrow> analysis_row" where
  "region_aggregate d r = aggregate (region_rows d r)"

text \<open>\<open>highest f R res\<close>: the label \<open>res\<close> is the first region of \<open>R\<close>, in sorted order,
  whose value under \<open>f\<close> is the greatest; it is NaN when no region has a value.
  \<open>lowest\<close> is the same for the least value.\<close>

definition highest :: "(string \<Rightarrow> cell) \<Rightarrow> string set \<Rightarrow> string option \<Rightarrow> bool" where
  "highest f R res \<longleftrightarrow>
     (case res of
        None \<Rightarrow> (\<forall>r \<in> R. f r = None)
      | Some r \<Rightarrow> r \<in> R \<and> (\<exists>v. f r = Some v \<and>
                   (\<forall>r' \<in> R. \<forall>w. f r' = Some w \<longrightarrow> w \<le> v \<and> (w = v \<longrightarrow> r \<le> r'))))"

definition lowest :: "(string \<Rightarrow> cell) \<Rightarrow> string set \<Rightarrow> string option \<Rightarrow> bool" where
  "lowest f R res \<longleftrightarrow>
     (case res of
        None \<Rightarrow> (\<forall>r \<in> R. f r = None)
      | Some r \<Rightarrow> r \<in> R \<and> (\<exists>v. f r = Some v \<and>
                   (\<forall>r' \<in> R. \<forall>w. f r' = Some w \<longrightarrow> v \<le> w \<and> (w = v \<longrightarrow> r \<le> r'))))"

section \<open>Example data\<close>

text \<open>The columns of the input schema, the optional free-text column last.\<close>

definition ALL_COLUMNS :: "column list" where
  "ALL_COLUMNS = [Timestamp, GHI, DNI, DHI, ModA, ModB, Tamb, RH, WS, WSgust, WD,
                  Precipitation, Cleaning, Comments]"

text \<open>A row of a region with the listed cells, every other cell 0 and no comment.\<close>

definition reading :: "string \<Rightarrow> (column \<times> cell) list \<Rightarrow> row" where
  "reading reg kvs =
     \<lparr>region = reg,
      cells = (\<lambda>c. if c = Comments then None
                   else case map_of kvs c of None \<Rightarrow> Some 0 | Some x \<Rightarrow> x)\<rparr>"

definition noisy_frame :: frame where
  "noisy_frame =
     \<lparr>columns = ALL_COLUMNS,
      rows = [reading ''Togo'' [(GHI, Some (- 5)), (RH, Some 120)],
              reading ''Togo'' [(GHI, Some 10), (RH, Some 50)],
              reading ''Togo'' [(GHI, Some 12), (RH, Some 50)],
              reading ''Togo'' [(GHI, Some 15), (RH, Some 50)]]\<rparr>"

definition drifting_frame :: frame where
  "drifting_frame =
     \<lparr>columns = ALL_COLUMNS,
      rows = [reading ''Benin'' [(GHI, Some 0)], reading ''Benin'' [(GHI, Some 0)],
              reading ''Benin'' [(GHI, Some 0)], reading ''Benin'' [(GHI, Some 1)],
              reading ''Benin'' [(GHI, Some 3)]]\<rparr>"

definition ghi_scenario :: frame where
  "ghi_scenario =
     \<lparr>columns = ALL_COLUMNS,
      rows = [reading ''Benin'' [(GHI, Some (- 5))], reading ''Benin'' [(GHI, Some 10)],
              reading ''Benin'' [(GHI, Some 2000)], reading ''Benin'' [(GHI, Some 15)],
              reading ''Benin'' [(GHI, Some 12)]]\<rparr>"

definition two_region_frame :: frame where
  "two_region_frame =
     \<lparr>columns = ALL_COLUMNS,
      rows = [reading ''Benin'' [(RH, Some 40)], reading ''Benin'' [(RH, Some 45)],
              reading ''Togo'' [(RH, None)], reading ''Togo'' [(RH, Some 50)]]\<rparr>"

definition maintenance_week :: frame where
  "maintenance_week =
     \<lparr>columns = ALL_COLUMNS,
      rows = [reading ''Benin'' [(ModA, Some 1)], reading ''Benin'' [(ModA, Some 1)],
              reading ''Benin'' [(ModA, Some 1)],
              reading ''Benin'' [(ModA, Some 1), (Cleaning, Some 1)],
              reading ''Benin'' [(ModA, Some 3)], reading ''Benin'' [(ModA, Some 3)],
              reading ''Benin'' [(ModA, Some 3)]]\<rparr>"

definition early_event_frame :: frame where
  "early_event_frame =
     \<lparr>columns = ALL_COLUMNS,
      rows = [reading ''Togo'' [(ModA, Some 1)], reading ''Togo'' [(ModA, Some 1)],
              reading ''Togo'' [(ModA, Some 1), (Cleaning, Some 1)],
              reading ''Togo'' [(ModA, Some 2)], reading ''Togo'' [(ModA, Some 2)],
              reading ''Togo'' [(ModA, Some 2)], reading ''Togo'' [(ModA, Some 2)],
              reading ''Togo'' [(ModA, Some 2)]]\<rparr>"





text \<open>A store that holds one DataFrame, at address 0.\<close>

definition one_frame_store :: store where
  "one_frame_store = \<lparr>frames = [noisy_frame], reports = []\<rparr>"

definition close_means_frame :: frame where
  "close_means_frame =
     \<lparr>columns = ALL_COLUMNS,
      rows = [reading ''Benin'' [(GHI, Some 300.001)], reading ''Benin'' [(GHI, Some 300.001)],
              reading ''Togo'' [(GHI, Some 300.004)], reading ''Togo'' [(GHI, Some 300.004)]]\<rparr>"

definition single_rows_frame :: frame where
  "single_rows_frame =
     \<lparr>columns = ALL_COLUMNS,
      rows = [reading ''Benin'' [(GHI, Some 300)], reading ''Togo'' [(GHI, Some 500)]]\<rparr>"

section \<open>Properties of the Cleaner\<close>

subsection \<open>The outlier pass only removes rows\<close>

lemma columns_remove_outliers: "columns (remove_outliers col d) = columns d"
  by (simp add: remove_outliers_def Let_def)

lemma columns_fold_remove_outliers: "columns (fold remove_outliers cs d) = columns d"
  by (induction cs arbitrary: d) (simp_all add: columns_remove_outliers)

lemma rows_remove_outliers:
  "rows (remove_outliers col d) =
     (if col \<in> set (columns d)
      then filter (\<lambda>r. within_fences (quantile (column_values col (rows d)) 0.25)
                                     (quantile (column_values col (rows d)) 0.75) (cells r col))
                  (rows d)
      else rows d)"
  by (simp add: remove_outliers_def Let_def)

lemma within_fences_present: "within_fences q1 q3 x \<Longrightarrow> x \<noteq> None"
  by (auto simp: within_fences_def split: option.splits)

lemma subseq_remove_outliers: "subseq (rows (remove_outliers col d)) (rows d)"
  by (simp add: rows_remove_outliers)

lemma subseq_fold_remove_outliers: "subseq (rows (fold remove_outliers cs d)) (rows d)"
proof (induction cs arbitrary: d)
  case Nil
  show ?case by simp
next
  case (Cons c cs)
  have "subseq (rows (fold remove_outliers cs (remove_outliers c d))) (rows (remove_outliers c d))"
    by (rule Cons.IH)
  then show ?case
    using subseq_remove_outliers [of c d] by (auto intro: subseq_order.order_trans)
qed

lemma set_rows_fold_remove_outliers:
  "set (rows (fold remove_outliers cs d)) \<subseteq> set (rows d)"
  using subseq_fold_remove_outliers [of cs d] by (auto elim: list_emb_set)

lemma checked_cells_present:
  assumes "r \<in> set (rows (fold remove_outliers cs d))" "c \<in> set cs" "c \<in> set (columns d)"
  shows "cells r c \<noteq> None"
  using assms
proof (induction cs arbitrary: d)
  case Nil
  then show ?case by simp
next
  case (Cons a cs)
  show ?case
  proof (cases "c \<in> set cs")
    case True
    with Cons.IH [of "remove_outliers a d"] Cons.prems show ?thesis
      by (simp add: columns_remove_outliers)
  next
    case False
    with Cons.prems have ca: "a = c" by simp
    from Cons.prems have "r \<in> set (rows (remove_outliers a d))"
      using set_rows_fold_remove_outliers [of cs "remove_outliers a d"] by auto
    with ca Cons.prems show ?thesis
      by (auto simp: rows_remove_outliers dest: within_fences_present)
  qed
qed

subsection \<open>Columns and bounds after imputation and clipping\<close>

lemma columns_assign_column: "columns (assign_column c f d) = columns d"
  by (simp add: assign_column_def)

lemma columns_clip_solar: "columns (clip_solar c d) = columns d"
  by (simp add: clip_solar_def columns_assign_column)

lemma columns_fold_clip_solar: "columns (fold clip_solar cs d) = columns d"
  by (induction cs arbitrary: d) (simp_all add: columns_clip_solar)

lemma columns_clip_rh: "columns (clip_rh d) = columns d"
  by (simp add: clip_rh_def columns_assign_column)

lemma columns_impute_and_clip: "columns (impute_and_clip d) = removeAll Comments (columns d)"
  by (simp add: impute_and_clip_def columns_clip_rh columns_fold_clip_solar ffill_def
      drop_column_def)

lemma columns_clean_data: "columns (clean_data d) = removeAll Comments (columns d)"
  by (simp add: clean_data_def columns_fold_remove_outliers columns_impute_and_clip)

lemma clip_solar_establishes:
  "c \<in> set (columns d) \<Longrightarrow> lower_bounded 0 c (rows (clip_solar c d))"
  by (auto simp: lower_bounded_def clip_solar_def assign_column_def clip_def)

lemma clip_solar_preserves:
  "lower_bounded 0 c (rows d) \<Longrightarrow> lower_bounded 0 c (rows (clip_solar c' d))"
  by (auto simp: lower_bounded_def clip_solar_def assign_column_def clip_def)

lemma fold_clip_solar_preserves:
  "lower_bounded 0 c (rows d) \<Longrightarrow> lower_bounded 0 c (rows (fold clip_solar cs d))"
  by (induction cs arbitrary: d) (simp_all add: clip_solar_preserves)

lemma fold_clip_solar_establishes:
  "c \<in> set cs \<Longrightarrow> c \<in> set (columns d) \<Longrightarrow> lower_bounded 0 c (rows (fold clip_solar cs d))"
proof (induction cs arbitrary: d)
  case Nil
  then show ?case by simp
next
  case (Cons a cs)
  show ?case
  proof (cases "a = c")
    case True
    with Cons.prems show ?thesis
      by (simp add: fold_clip_solar_preserves clip_solar_establishes)
  next
    case False
    with Cons.prems Cons.IH [of "clip_solar a d"] show ?thesis
      by (simp add: columns_clip_solar)
  qed
qed

lemma clip_rh_preserves:
  "lower_bounded 0 c (rows d) \<Longrightarrow> lower_bounded 0 c (rows (clip_rh d))"
  by (auto simp: lower_bounded_def clip_rh_def assign_column_def clip_def)

lemma clip_rh_establishes:
  "RH \<in> set (columns d) \<Longrightarrow>
     lower_bounded 0 RH (rows (clip_rh d)) \<and> upper_bounded 100 RH (rows (clip_rh d))"
  by (auto simp: lower_bounded_def upper_bounded_def clip_rh_def assign_column_def clip_def)

lemma solar_not_Comments: "c \<in> set SOLAR_COLS \<Longrightarrow> c \<noteq> Comments"
  by (auto simp: SOLAR_COLS_def)

lemma impute_and_clip_solar:
  assumes "c \<in> set SOLAR_COLS" "c \<in> set (columns d)"
  shows "lower_bounded 0 c (rows (impute_and_clip d))"
proof -
  from assms have "c \<in> set (columns (ffill (drop_column Comments d)))"
    by (simp add: ffill_def drop_column_def solar_not_Comments)
  with assms(1) show ?thesis
    unfolding impute_and_clip_def
    by (intro clip_rh_preserves fold_clip_solar_establishes)
qed

lemma impute_and_clip_rh:
  assumes "RH \<in> set (columns d)"
  shows "lower_bounded 0 RH (rows (impute_and_clip d)) \<and> upper_bounded 100 RH (rows (impute_and_clip d))"
proof -
  from assms have "RH \<in> set (columns (fold clip_solar SOLAR_COLS (ffill (drop_column Comments d))))"
    by (simp add: columns_fold_clip_solar ffill_def drop_column_def)
  then show ?thesis
    unfolding impute_and_clip_def by (rule clip_rh_establishes)
qed

subsection \<open>Forward fill and clipping leave an imputed frame unchanged\<close>

lemma fill_row_fixed: "fill_row prev r = r \<longleftrightarrow> (\<forall>c. cells r c = None \<longrightarrow> prev c = None)"
proof
  assume eq: "fill_row prev r = r"
  show "\<forall>c. cells r c = None \<longrightarrow> prev c = None"
  proof (intro allI impI)
    fix c assume n: "cells r c = None"
    from eq have "cells (fill_row prev r) c = cells r c" by simp
    with n show "prev c = None" by (simp add: fill_row_def)
  qed
next
  assume a: "\<forall>c. cells r c = None \<longrightarrow> prev c = None"
  have "(\<lambda>c. case cells r c of None \<Rightarrow> prev c | Some v \<Rightarrow> Some v) = cells r"
    using a by (auto simp: fun_eq_iff split: option.splits)
  then show "fill_row prev r = r" by (simp add: fill_row_def)
qed

lemma gapless_iff_fixed: "gapless prev rs \<longleftrightarrow> ffill_rows prev rs = rs"
proof (induction rs arbitrary: prev)
  case Nil
  show ?case by simp
next
  case (Cons r rs)
  show ?case
  proof (cases "fill_row prev r = r")
    case True
    then have "ffill_rows prev (r # rs) = r # ffill_rows (cells r) rs" by simp
    moreover from True have "\<forall>c. cells r c = None \<longrightarrow> prev c = None"
      by (simp add: fill_row_fixed)
    ultimately show ?thesis using Cons.IH [of "cells r"] by simp
  next
    case False
    have l: "\<not> gapless prev (r # rs)"
      using False fill_row_fixed [of prev r] by auto
    have r: "ffill_rows prev (r # rs) \<noteq> r # rs"
      using False by simp
    from l r show ?thesis by blast
  qed
qed

lemma gapless_ffill_rows: "gapless prev (ffill_rows prev rs)"
proof (induction rs arbitrary: prev)
  case Nil
  show ?case by simp
next
  case (Cons r rs)
  have "\<forall>c. cells (fill_row prev r) c = None \<longrightarrow> prev c = None"
    by (auto simp: fill_row_def split: option.splits)
  with Cons.IH [of "cells (fill_row prev r)"] show ?case by simp
qed

lemma gapless_weaken:
  "gapless prev rs \<Longrightarrow> (\<forall>c. prev c = None \<longrightarrow> prev' c = None) \<Longrightarrow> gapless prev' rs"
  by (cases rs) auto

lemma gapless_filter: "gapless prev rs \<Longrightarrow> gapless prev (filter P rs)"
proof (induction rs arbitrary: prev)
  case Nil
  then show ?case by simp
next
  case (Cons r rs)
  from Cons.prems have hd: "\<forall>c. cells r c = None \<longrightarrow> prev c = None" and tl: "gapless (cells r) rs"
    by simp_all
  from Cons.IH [OF tl] have f: "gapless (cells r) (filter P rs)" .
  show ?case
  proof (cases "P r")
    case True
    with hd f show ?thesis by simp
  next
    case False
    from gapless_weaken [OF f, of prev] hd have "gapless prev (filter P rs)" by blast
    with False show ?thesis by simp
  qed
qed

lemma gapless_map:
  assumes "gapless prev rs" "\<And>r c. cells (g r) c = None \<longleftrightarrow> cells r c = None"
  shows "gapless prev (map g rs)"
  using assms(1)
proof (induction rs arbitrary: prev)
  case Nil
  then show ?case by simp
next
  case (Cons r rs)
  from Cons.prems have "gapless (cells r) rs" by simp
  from Cons.IH [OF this] have "gapless (cells r) (map g rs)" .
  then have "gapless (cells (g r)) (map g rs)"
    by (rule gapless_weaken) (simp add: assms(2))
  with Cons.prems show ?case by (simp add: assms(2))
qed

lemma clip_None: "clip lower upper x = None \<longleftrightarrow> x = None"
  by (simp add: clip_def)

lemma gapless_assign_clip:
  "gapless prev (rows d) \<Longrightarrow> gapless prev (rows (assign_column c (clip lower upper) d))"
  unfolding assign_column_def by (simp, rule gapless_map) (auto simp: clip_None)

lemma gapless_clip_solar: "gapless prev (rows d) \<Longrightarrow> gapless prev (rows (clip_solar c d))"
  by (simp add: clip_solar_def gapless_assign_clip)

lemma gapless_fold_clip_solar:
  "gapless prev (rows d) \<Longrightarrow> gapless prev (rows (fold clip_solar cs d))"
  by (induction cs arbitrary: d) (simp_all add: gapless_clip_solar)

lemma gapless_clip_rh: "gapless prev (rows d) \<Longrightarrow> gapless prev (rows (clip_rh d))"
  by (simp add: clip_rh_def gapless_assign_clip)

lemma gapless_impute_and_clip: "gapless (\<lambda>c. None) (rows (impute_and_clip d))"
  unfolding impute_and_clip_def
  by (intro gapless_clip_rh gapless_fold_clip_solar) (simp add: ffill_def gapless_ffill_rows)

text \<open>The comment cells stay blank.\<close>

lemma ffill_rows_blank:
  "prev c = None \<Longrightarrow> \<forall>r \<in> set rs. cells r c = None \<Longrightarrow> \<forall>r \<in> set (ffill_rows prev rs). cells r c = None"
proof (induction rs arbitrary: prev)
  case Nil
  then show ?case by simp
next
  case (Cons r rs)
  from Cons.prems have 1: "cells (fill_row prev r) c = None" by (simp add: fill_row_def)
  from Cons.IH [of "cells (fill_row prev r)"] Cons.prems 1 show ?case by simp
qed

lemma comments_blank_assign:
  "c \<noteq> Comments \<Longrightarrow> \<forall>r \<in> set (rows d). cells r Comments = None \<Longrightarrow>
     \<forall>r \<in> set (rows (assign_column c f d)). cells r Comments = None"
  by (auto simp: assign_column_def)

lemma comments_blank_clip_solar:
  "c \<in> set SOLAR_COLS \<Longrightarrow> \<forall>r \<in> set (rows d). cells r Comments = None \<Longrightarrow>
     \<forall>r \<in> set (rows (clip_solar c d)). cells r Comments = None"
  using comments_blank_assign [of c d] by (auto simp: clip_solar_def SOLAR_COLS_def)

lemma comments_blank_fold_clip_solar:
  "set cs \<subseteq> set SOLAR_COLS \<Longrightarrow> \<forall>r \<in> set (rows d). cells r Comments = None \<Longrightarrow>
     \<forall>r \<in> set (rows (fold clip_solar cs d)). cells r Comments = None"
proof (induction cs arbitrary: d)
  case Nil
  then show ?case by simp
next
  case (Cons a cs)
  from Cons.prems have "\<forall>r \<in> set (rows (clip_solar a d)). cells r Comments = None"
    by (intro comments_blank_clip_solar) auto
  with Cons.IH [of "clip_solar a d"] Cons.prems show ?case by simp
qed

lemma comments_blank_impute_and_clip:
  "\<forall>r \<in> set (rows (impute_and_clip d)). cells r Comments = None"
proof -
  have "\<forall>r \<in> set (rows (ffill (drop_column Comments d))). cells r Comments = None"
    unfolding ffill_def by (simp, intro ffill_rows_blank) (auto simp: drop_column_def)
  then have "\<forall>r \<in> set (rows (fold clip_solar SOLAR_COLS (ffill (drop_column Comments d)))).
               cells r Comments = None"
    by (intro comments_blank_fold_clip_solar) simp_all
  then show ?thesis
    unfolding impute_and_clip_def clip_rh_def using comments_blank_assign [of RH] by auto
qed

lemma imputed_impute_and_clip: "imputed (impute_and_clip d)"
proof -
  have "lower_bounded 0 c (rows (impute_and_clip d))"
    if "c \<in> set SOLAR_COLS" "c \<in> set (columns (impute_and_clip d))" for c
    using that by (intro impute_and_clip_solar) (auto simp: columns_impute_and_clip)
  moreover have "lower_bounded 0 RH (rows (impute_and_clip d)) \<and>
                 upper_bounded 100 RH (rows (impute_and_clip d))"
    if "RH \<in> set (columns (impute_and_clip d))"
    using that by (intro impute_and_clip_rh) (auto simp: columns_impute_and_clip)
  ultimately show ?thesis
    unfolding imputed_def
    using gapless_impute_and_clip [of d] comments_blank_impute_and_clip [of d]
    by (simp add: columns_impute_and_clip)
qed

lemma bounded_filter:
  "lower_bounded l c rs \<Longrightarrow> lower_bounded l c (filter P rs)"
  "upper_bounded u c rs \<Longrightarrow> upper_bounded u c (filter P rs)"
  by (auto simp: lower_bounded_def upper_bounded_def)

lemma imputed_remove_outliers: "imputed d \<Longrightarrow> imputed (remove_outliers col d)"
  unfolding imputed_def
  by (simp add: columns_remove_outliers rows_remove_outliers bounded_filter gapless_filter)

lemma imputed_fold_remove_outliers: "imputed d \<Longrightarrow> imputed (fold remove_outliers cs d)"
  by (induction cs arbitrary: d) (simp_all add: imputed_remove_outliers)

lemma imputed_clean_data: "imputed (clean_data d)"
  unfolding clean_data_def by (intro imputed_fold_remove_outliers imputed_impute_and_clip)

text \<open>On an imputed frame the first four steps of the Cleaner change nothing.\<close>

lemma assign_column_same:
  "\<forall>r \<in> set (rows d). f (cells r c) = cells r c \<Longrightarrow> assign_column c f d = d"
proof -
  assume a: "\<forall>r \<in> set (rows d). f (cells r c) = cells r c"
  have "map (\<lambda>r. r\<lparr>cells := (cells r)(c := f (cells r c))\<rparr>) (rows d) = rows d"
    using a by (induction "rows d") (auto simp: map_idI)
  then show ?thesis by (simp add: assign_column_def)
qed

lemma drop_column_absent:
  assumes "c \<notin> set (columns d)" "\<forall>r \<in> set (rows d). cells r c = None"
  shows "drop_column c d = d"
proof -
  have "map (\<lambda>r. r\<lparr>cells := (cells r)(c := None)\<rparr>) (rows d) = rows d"
    using assms(2) by (intro map_idI) (simp add: fun_upd_idem)
  with assms(1) show ?thesis by (simp add: drop_column_def)
qed

lemma clip_within:
  "(\<forall>v. x = Some v \<longrightarrow> (\<forall>l. lower = Some l \<longrightarrow> l \<le> v) \<and> (\<forall>u. upper = Some u \<longrightarrow> v \<le> u))
    \<Longrightarrow> clip lower upper x = x"
  by (cases x; cases lower; cases upper) (auto simp: clip_def)

lemma clip_solar_fixed:
  assumes "c \<in> set (columns d) \<longrightarrow> lower_bounded 0 c (rows d)"
  shows "clip_solar c d = d"
proof (cases "c \<in> set (columns d)")
  case True
  with assms have "\<forall>r \<in> set (rows d). clip (Some 0) None (cells r c) = cells r c"
    by (auto simp: lower_bounded_def intro!: clip_within)
  with True show ?thesis by (simp add: clip_solar_def assign_column_same)
next
  case False
  then show ?thesis by (simp add: clip_solar_def)
qed

lemma fold_clip_solar_fixed:
  "\<forall>c \<in> set cs. c \<in> set (columns d) \<longrightarrow> lower_bounded 0 c (rows d) \<Longrightarrow> fold clip_solar cs d = d"
  by (induction cs) (simp_all add: clip_solar_fixed)

lemma clip_rh_fixed:
  assumes "RH \<in> set (columns d) \<longrightarrow> lower_bounded 0 RH (rows d) \<and> upper_bounded 100 RH (rows d)"
  shows "clip_rh d = d"
proof (cases "RH \<in> set (columns d)")
  case True
  with assms have "\<forall>r \<in> set (rows d). clip (Some 0) (Some 100) (cells r RH) = cells r RH"
    by (auto simp: lower_bounded_def upper_bounded_def intro!: clip_within)
  with True show ?thesis by (simp add: clip_rh_def assign_column_same)
next
  case False
  then show ?thesis by (simp add: clip_rh_def)
qed

lemma ffill_fixed: "gapless (\<lambda>c. None) (rows d) \<Longrightarrow> ffill d = d"
  by (simp add: ffill_def gapless_iff_fixed)

lemma impute_and_clip_fixed:
  assumes "imputed d"
  shows "impute_and_clip d = d"
proof -
  from assms have "drop_column Comments d = d"
    by (intro drop_column_absent) (simp_all add: imputed_def)
  moreover from assms have "ffill d = d"
    by (intro ffill_fixed) (simp add: imputed_def)
  moreover from assms have "fold clip_solar SOLAR_COLS d = d"
    by (intro fold_clip_solar_fixed) (simp add: imputed_def)
  moreover from assms have "clip_rh d = d"
    by (intro clip_rh_fixed) (simp add: imputed_def)
  ultimately show ?thesis by (simp add: impute_and_clip_def)
qed

subsection \<open>The outlier passes one after the other\<close>

lemma clean_data_split:
  assumes "k < length OUTLIER_COLS"
  shows "clean_data d =
           fold remove_outliers (drop (Suc k) OUTLIER_COLS)
             (remove_outliers (OUTLIER_COLS ! k) (before_pass k d))"
proof -
  have "OUTLIER_COLS = take k OUTLIER_COLS @ OUTLIER_COLS ! k # drop (Suc k) OUTLIER_COLS"
    using assms by (rule id_take_nth_drop)
  then have "fold remove_outliers OUTLIER_COLS (impute_and_clip d) =
             fold remove_outliers (take k OUTLIER_COLS @ OUTLIER_COLS ! k # drop (Suc k) OUTLIER_COLS)
               (impute_and_clip d)"
    by simp
  then show ?thesis
    unfolding clean_data_def before_pass_def by (simp only: fold_append fold_simps o_apply)
qed

lemma outlier_not_Comments: "c \<in> set OUTLIER_COLS \<Longrightarrow> c \<noteq> Comments"
  by (auto simp: OUTLIER_COLS_def SOLAR_COLS_def)

lemma before_pass_0: "before_pass 0 d = impute_and_clip d"
  by (simp add: before_pass_def)

subsection \<open>The Cleaner column by column\<close>

lemma column_cells_ffill_rows:
  "column_cells c (ffill_rows prev rs) = ffill_cells (prev c) (column_cells c rs)"
  by (induction rs arbitrary: prev) (simp_all add: column_cells_def fill_row_def)

lemma column_cells_assign_column:
  "column_cells c (rows (assign_column c' f d)) =
     (if c = c' then map f (column_cells c (rows d)) else column_cells c (rows d))"
  by (simp add: column_cells_def assign_column_def comp_def)

lemma column_cells_drop_column:
  "c \<noteq> c' \<Longrightarrow> column_cells c (rows (drop_column c' d)) = column_cells c (rows d)"
  by (simp add: column_cells_def drop_column_def comp_def)

lemma clip_idem: "clip lower upper (clip lower upper x) = clip lower upper x"
  by (cases x; cases lower; cases upper) (auto simp: clip_def)

lemma column_cells_clip_solar:
  "column_cells c (rows (clip_solar c' d)) =
     (if c = c' \<and> c \<in> set (columns d) then map (clip (Some 0) None) (column_cells c (rows d))
      else column_cells c (rows d))"
  by (auto simp: clip_solar_def column_cells_assign_column)

lemma column_cells_fold_clip_solar:
  "column_cells c (rows (fold clip_solar cs d)) =
     (if c \<in> set cs \<and> c \<in> set (columns d) then map (clip (Some 0) None) (column_cells c (rows d))
      else column_cells c (rows d))"
proof (induction cs arbitrary: d)
  case Nil
  show ?case by simp
next
  case (Cons a cs)
  show ?case
    by (simp add: Cons.IH columns_clip_solar column_cells_clip_solar clip_idem comp_def)
qed

lemma RH_not_solar: "RH \<notin> set SOLAR_COLS"
  by (simp add: SOLAR_COLS_def)

lemma column_clip_fun:
  "column_clip cols c =
     (if c \<in> set cols \<and> c \<in> set SOLAR_COLS then clip (Some 0) None
      else if c \<in> set cols \<and> c = RH then clip (Some 0) (Some 100)
      else id)"
  by (auto simp: fun_eq_iff column_clip_def)

lemma column_cells_impute_and_clip:
  assumes "c \<noteq> Comments"
  shows "column_cells c (rows (impute_and_clip d)) =
           map (column_clip (columns d) c) (ffill_cells None (column_cells c (rows d)))"
proof -
  let ?d1 = "ffill (drop_column Comments d)"
  have cols: "c \<in> set (columns ?d1) \<longleftrightarrow> c \<in> set (columns d)"
    using assms by (simp add: ffill_def drop_column_def)
  have base: "column_cells c (rows ?d1) = ffill_cells None (column_cells c (rows d))"
    using assms by (simp add: ffill_def column_cells_ffill_rows column_cells_drop_column)
  show ?thesis
  proof (cases "c = RH")
    case True
    then show ?thesis
      using base cols RH_not_solar
      by (simp add: impute_and_clip_def clip_rh_def column_cells_assign_column
          column_cells_fold_clip_solar columns_fold_clip_solar column_clip_fun)
  next
    case False
    then show ?thesis
      using base cols
      by (simp add: impute_and_clip_def clip_rh_def column_cells_assign_column
          column_cells_fold_clip_solar columns_fold_clip_solar column_clip_fun)
  qed
qed

lemma quantile_index:
  assumes "0 < n" "0 \<le> q" "q \<le> 1"
  shows "nat \<lfloor>real (n - 1) * q\<rfloor> < n"
proof -
  have "real (n - 1) * q \<le> real (n - 1)"
    using assms by (simp add: mult_left_le)
  then have "\<lfloor>real (n - 1) * q\<rfloor> \<le> int (n - 1)"
    by (simp add: floor_le_iff)
  with assms(1) show ?thesis by linarith
qed

lemma quantile_constant:
  assumes "xs \<noteq> []" "\<forall>x \<in> set xs. x = v" "0 \<le> q" "q \<le> 1"
  shows "quantile xs q = Some v"
proof -
  let ?s = "sort xs"
  let ?n = "length ?s"
  let ?lo = "nat \<lfloor>real (?n - 1) * q\<rfloor>"
  let ?hi = "min (?lo + 1) (?n - 1)"
  from assms(1) have n: "0 < ?n" by simp
  have lo: "?lo < ?n" using quantile_index [OF n assms(3,4)] .
  from n have hi: "?hi < ?n" by (auto simp: min_less_iff_disj)
  have "?s ! ?lo \<in> set ?s" "?s ! ?hi \<in> set ?s"
    using lo hi by (simp_all only: nth_mem)
  then have "?s ! ?lo \<in> set xs" "?s ! ?hi \<in> set xs" by simp_all
  with assms(2) have "?s ! ?lo = v" "?s ! ?hi = v" by blast+
  with assms(1) show ?thesis by (simp add: quantile_def Let_def)
qed

lemma remove_outliers_all_within:
  assumes "\<forall>r \<in> set (rows d).
             within_fences (quantile (column_values col (rows d)) 0.25)
                           (quantile (column_values col (rows d)) 0.75) (cells r col)"
  shows "remove_outliers col d = d"
  using assms by (simp add: remove_outliers_def Let_def)

lemma column_values_constant:
  "\<forall>r \<in> set rs. cells r c = Some v \<Longrightarrow> column_values c rs = replicate (length rs) v"
  by (induction rs) (simp_all add: column_values_def List.map_filter_simps)

lemma remove_outliers_constant:
  assumes "constant_column c (rows d)"
  shows "remove_outliers c d = d"
proof (cases "rows d = []")
  case True
  then show ?thesis by (simp add: remove_outliers_def Let_def)
next
  case False
  from assms obtain v where v: "\<forall>r \<in> set (rows d). cells r c = Some v"
    by (auto simp: constant_column_def)
  then have cv: "column_values c (rows d) = replicate (length (rows d)) v"
    by (rule column_values_constant)
  with False have ne: "column_values c (rows d) \<noteq> []" by simp
  from cv have all: "\<forall>x \<in> set (column_values c (rows d)). x = v" by simp
  have q: "quantile (column_values c (rows d)) 0.25 = Some v"
    "quantile (column_values c (rows d)) 0.75 = Some v"
    using quantile_constant [OF ne all] by simp_all
  show ?thesis
    by (rule remove_outliers_all_within) (use q v in \<open>simp add: within_fences_def\<close>)
qed

lemma constant_column_filter: "constant_column c rs \<Longrightarrow> constant_column c (filter P rs)"
  by (auto simp: constant_column_def)

lemma fold_remove_outliers_constant:
  "\<forall>c \<in> set cs. c \<in> set (columns d) \<longrightarrow> constant_column c (rows d) \<Longrightarrow>
     fold remove_outliers cs d = d"
proof (induction cs)
  case Nil
  show ?case by simp
next
  case (Cons a cs)
  have "remove_outliers a d = d"
  proof (cases "a \<in> set (columns d)")
    case True
    with Cons.prems show ?thesis by (simp add: remove_outliers_constant)
  next
    case False
    then show ?thesis by (simp add: remove_outliers_def)
  qed
  with Cons show ?case by simp
qed

lemma ffill_cells_present: "None \<notin> set xs \<Longrightarrow> ffill_cells prev xs = xs"
  by (induction xs arbitrary: prev) (auto split: option.splits)

lemma column_clip_Some: "\<exists>w. column_clip cols c (Some v) = Some w"
  by (simp add: column_clip_def clip_def)

lemma constant_column_impute_and_clip:
  assumes "constant_column c (rows d)" "c \<noteq> Comments"
  shows "constant_column c (rows (impute_and_clip d))"
proof -
  from assms(1) obtain v where v: "\<forall>r \<in> set (rows d). cells r c = Some v"
    by (auto simp: constant_column_def)
  then have cc: "column_cells c (rows d) = replicate (length (rows d)) (Some v)"
    by (induction "rows d" arbitrary: d) (auto simp: column_cells_def map_replicate_const [symmetric])
  have "ffill_cells None (column_cells c (rows d)) = column_cells c (rows d)"
    by (rule ffill_cells_present) (simp add: cc)
  then have "column_cells c (rows (impute_and_clip d)) =
               replicate (length (rows d)) (column_clip (columns d) c (Some v))"
    using column_cells_impute_and_clip [OF assms(2), of d] by (simp add: cc)
  moreover obtain w where "column_clip (columns d) c (Some v) = Some w"
    using column_clip_Some by blast
  ultimately have "set (column_cells c (rows (impute_and_clip d))) \<subseteq> {Some w}"
    by auto
  then show ?thesis
    by (auto simp: constant_column_def column_cells_def)
qed

lemma column_values_cells: "column_values c rs = List.map_filter id (column_cells c rs)"
  by (induction rs)
    (simp_all add: column_values_def column_cells_def List.map_filter_simps split: option.splits)

lemma column_cells_filter:
  "column_cells c (filter (\<lambda>r. P (cells r c)) rs) = filter P (column_cells c rs)"
  by (induction rs) (simp_all add: column_cells_def)

lemma length_column_cells: "length (column_cells c rs) = length rs"
  by (simp add: column_cells_def)

lemma OUTLIER_COLS_Cons: "OUTLIER_COLS = GHI # [DNI, DHI, ModA, ModB, Tamb, WS]"
  by (simp add: OUTLIER_COLS_def SOLAR_COLS_def)

subsection \<open>Forward fill gives the most recent value\<close>

lemma last_valid_Nil: "last_valid [] = None"
  by (simp add: last_valid_def present_def List.map_filter_simps)

lemma last_valid_Cons:
  "last_valid (x # xs) = (case last_valid xs of None \<Rightarrow> x | Some v \<Rightarrow> Some v)"
  by (cases x) (simp_all add: last_valid_def present_def List.map_filter_simps)

lemma last_valid_None: "last_valid xs = None \<longleftrightarrow> (\<forall>x \<in> set xs. x = None)"
  by (induction xs) (auto simp: last_valid_Nil last_valid_Cons split: option.splits)

lemma ffill_cells_nth:
  "i < length xs \<Longrightarrow>
     ffill_cells prev xs ! i =
       (case last_valid (take (Suc i) xs) of None \<Rightarrow> prev | Some v \<Rightarrow> Some v)"
proof (induction xs arbitrary: prev i)
  case Nil
  then show ?case by simp
next
  case (Cons x xs)
  show ?case
  proof (cases i)
    case 0
    then show ?thesis
      by (cases x) (simp_all add: last_valid_Cons last_valid_Nil)
  next
    case (Suc j)
    with Cons.prems have "j < length xs" by simp
    from Cons.IH [OF this] Suc show ?thesis
      by (cases x) (simp_all add: last_valid_Cons split: option.splits)
  qed
qed

lemma ffill_cells_no_gap: "prev \<noteq> None \<Longrightarrow> None \<notin> set (ffill_cells prev xs)"
  by (induction xs arbitrary: prev) (auto split: option.splits)

lemma column_clip_None: "column_clip cols c x = None \<longleftrightarrow> x = None"
  by (simp add: column_clip_def clip_None)

lemma cell_of_column: "i < length rs \<Longrightarrow> cells (rs ! i) c = column_cells c rs ! i"
  by (simp add: column_cells_def)

lemma length_ffill_rows: "length (ffill_rows prev rs) = length rs"
  by (induction rs arbitrary: prev) simp_all

section \<open>Properties of the Recommendation Engine\<close>

lemma worse_or_equal_simps:
  "worse_or_equal key v []"
  "worse_or_equal key v ((k, None) # xs) \<longleftrightarrow> worse_or_equal key v xs"
  "worse_or_equal key v ((k, Some w) # xs) \<longleftrightarrow> key w \<le> key v \<and> worse_or_equal key v xs"
  by (auto simp: worse_or_equal_def)

lemma strictly_worse_simps:
  "strictly_worse key v []"
  "strictly_worse key v ((k, None) # xs) \<longleftrightarrow> strictly_worse key v xs"
  "strictly_worse key v ((k, Some w) # xs) \<longleftrightarrow> key w < key v \<and> strictly_worse key v xs"
  by (auto simp: strictly_worse_def)

lemma worse_or_equal_mono:
  "worse_or_equal key v xs \<Longrightarrow> key v \<le> key v' \<Longrightarrow> worse_or_equal key v' xs"
  by (force simp: worse_or_equal_def)

lemma strictly_worse_mono:
  "strictly_worse key v xs \<Longrightarrow> key v \<le> key v' \<Longrightarrow> strictly_worse key v' xs"
  by (force simp: strictly_worse_def)

lemma arg_best_split:
  "arg_best (\<lambda>a b. key b < key a) best xs = Some (k, v) \<Longrightarrow>
     (best = Some (k, v) \<and> worse_or_equal key v xs) \<or>
     (\<exists>ys zs. xs = ys @ (k, Some v) # zs \<and>
        (\<forall>k0 v0. best = Some (k0, v0) \<longrightarrow> key v0 < key v) \<and>
        strictly_worse key v ys \<and> worse_or_equal key v zs)"
proof (induction xs arbitrary: best)
  case Nil
  then show ?case by (simp add: worse_or_equal_simps)
next
  case (Cons x xs)
  obtain k' c where x: "x = (k', c)" by (cases x)
  have step: ?case
    if run: "arg_best (\<lambda>a b. key b < key a) nxt xs = Some (k, v)"
      and same: "nxt = best \<Longrightarrow> \<forall>w. c = Some w \<longrightarrow> (\<forall>k0 v0. best = Some (k0, v0) \<longrightarrow> key w \<le> key v0)"
      and new: "nxt \<noteq> best \<Longrightarrow> \<exists>w. c = Some w \<and> nxt = Some (k', w) \<and>
                  (\<forall>k0 v0. best = Some (k0, v0) \<longrightarrow> key v0 < key w)"
      and none: "best = None \<Longrightarrow> c \<noteq> None \<Longrightarrow> nxt \<noteq> best"
    for nxt
    using Cons.IH [OF run]
  proof (elim disjE exE conjE)
    assume e: "nxt = Some (k, v)" and w: "worse_or_equal key v xs"
    show ?thesis
    proof (cases "nxt = best")
      case True
      with e same w show ?thesis
        by (cases c) (auto simp: x worse_or_equal_simps)
    next
      case False
      from new [OF False] e have c: "c = Some v" "k' = k"
        and lt: "\<forall>k0 v0. best = Some (k0, v0) \<longrightarrow> key v0 < key v"
        by auto
      then have "x # xs = [] @ (k, Some v) # xs" "strictly_worse key v []"
        by (simp_all add: x strictly_worse_simps)
      with lt w show ?thesis by blast
    qed
  next
    fix ys zs
    assume a: "xs = ys @ (k, Some v) # zs"
      "\<forall>k0 v0. nxt = Some (k0, v0) \<longrightarrow> key v0 < key v"
      "strictly_worse key v ys" "worse_or_equal key v zs"
    have split: "x # xs = (x # ys) @ (k, Some v) # zs" by (simp add: a(1))
    show ?thesis
    proof (cases "nxt = best")
      case True
      with a(2) have b: "\<forall>k0 v0. best = Some (k0, v0) \<longrightarrow> key v0 < key v" by simp
      have "strictly_worse key v (x # ys)"
      proof (cases c)
        case None
        with a(3) show ?thesis by (simp add: x strictly_worse_simps)
      next
        case (Some w)
        with none True a(2) obtain k0 v0 where best: "best = Some (k0, v0)"
          by (cases best) auto
        with same [OF True] Some have "key w \<le> key v0" by simp
        moreover from b best have "key v0 < key v" by simp
        ultimately show ?thesis using a(3) Some by (simp add: x strictly_worse_simps)
      qed
      with split b a(4) show ?thesis by blast
    next
      case False
      from new [OF False] obtain w where w: "c = Some w" "nxt = Some (k', w)"
        "\<forall>k0 v0. best = Some (k0, v0) \<longrightarrow> key v0 < key w"
        by auto
      with a(2) have lt: "key w < key v" by simp
      with w(3) have b: "\<forall>k0 v0. best = Some (k0, v0) \<longrightarrow> key v0 < key v" by fastforce
      from lt w(1) a(3) have "strictly_worse key v (x # ys)"
        by (simp add: x strictly_worse_simps)
      with split b a(4) show ?thesis by blast
    qed
  qed
  show ?case
  proof (cases c)
    case None
    with Cons.prems show ?thesis by (intro step [of best]) (simp_all add: x)
  next
    case (Some w)
    show ?thesis
    proof (cases best)
      case None
      with Some Cons.prems show ?thesis
        by (intro step [of "Some (k', w)"]) (simp_all add: x)
    next
      case best: (Some b0)
      obtain k0 v0 where b0: "b0 = (k0, v0)" by (cases b0)
      show ?thesis
      proof (cases "key v0 < key w")
        case True
        with Some best b0 Cons.prems show ?thesis
          by (intro step [of "Some (k', w)"]) (auto simp: x)
      next
        case False
        with Some best b0 Cons.prems show ?thesis
          by (intro step [of best]) (auto simp: x)
      qed
    qed
  qed
qed

lemma arg_best_None:
  "arg_best better best xs = None \<longleftrightarrow> best = None \<and> (\<forall>k x. (k, x) \<in> set xs \<longrightarrow> x = None)"
  by (induction better best xs rule: arg_best.induct) auto

lemma arg_best_first_extremum:
  assumes "sorted ks"
    and "arg_best (\<lambda>a b. (key :: real \<Rightarrow> real) b < key a) None (map (\<lambda>k. (k, g k)) ks)
           = Some (k, v)"
  shows "k \<in> set ks \<and> g k = Some v \<and>
         (\<forall>r' \<in> set ks. \<forall>w. g r' = Some w \<longrightarrow> key w \<le> key v \<and> (key w = key v \<longrightarrow> k \<le> r'))"
proof -
  from arg_best_split [OF assms(2)]
  obtain ys zs where split: "map (\<lambda>k. (k, g k)) ks = ys @ (k, Some v) # zs"
    and before: "strictly_worse key v ys" and after: "worse_or_equal key v zs"
    by auto
  from split obtain ks1 k' ks2 where ks: "ks = ks1 @ k' # ks2"
    and ys: "ys = map (\<lambda>k. (k, g k)) ks1" and e: "(k', g k') = (k, Some v)"
    and zs: "zs = map (\<lambda>k. (k, g k)) ks2"
    by (auto simp: map_eq_append_conv map_eq_Cons_conv)
  from e have k': "k' = k" and gk: "g k = Some v" by auto
  have "key w \<le> key v \<and> (key w = key v \<longrightarrow> k \<le> r')"
    if r': "r' \<in> set ks" and w: "g r' = Some w" for r' w
  proof -
    from r' ks k' consider "r' \<in> set ks1" | "r' = k" | "r' \<in> set ks2" by auto
    then show ?thesis
    proof cases
      case 1
      with w have "(r', Some w) \<in> set ys" by (force simp: ys)
      with before have "key w < key v" by (auto simp: strictly_worse_def)
      then show ?thesis by simp
    next
      case 2
      with w gk show ?thesis by simp
    next
      case 3
      with w have "(r', Some w) \<in> set zs" by (force simp: zs)
      with after have "key w \<le> key v" by (auto simp: worse_or_equal_def)
      moreover from assms(1) 3 have "k \<le> r'"
        by (auto simp: ks k' sorted_append)
      ultimately show ?thesis by simp
    qed
  qed
  with ks k' gk show ?thesis by auto
qed

lemma idxmax_highest:
  assumes "sorted ks" and "idxmax pd (map (\<lambda>k. (k, g k)) ks) = Inr res"
  shows "highest g (set ks) res"
proof (cases "arg_best (\<lambda>v v0. v0 < v) None (map (\<lambda>k. (k, g k)) ks)")
  case None
  then have "\<forall>r \<in> set ks. g r = None" by (auto simp: arg_best_None)
  moreover from None assms(2) have "res = None"
    by (auto simp: idxmax_def all_nan_def split: if_splits pandas.splits)
  ultimately show ?thesis by (simp add: highest_def)
next
  case (Some kv)
  obtain k v where kv: "kv = (k, v)" by (cases kv)
  from Some kv have "arg_best (\<lambda>a b. id b < id a) None (map (\<lambda>k. (k, g k)) ks) = Some (k, v)"
    by simp
  from arg_best_first_extremum [OF assms(1) this] have "highest g (set ks) (Some k)"
    by (auto simp: highest_def)
  moreover from Some kv assms(2) have "res = Some k"
    by (auto simp: idxmax_def split: if_splits)
  ultimately show ?thesis by simp
qed

lemma idxmin_lowest:
  assumes "sorted ks" and "idxmin pd (map (\<lambda>k. (k, g k)) ks) = Inr res"
  shows "lowest g (set ks) res"
proof (cases "arg_best (\<lambda>v v0. v < v0) None (map (\<lambda>k. (k, g k)) ks)")
  case None
  then have "\<forall>r \<in> set ks. g r = None" by (auto simp: arg_best_None)
  moreover from None assms(2) have "res = None"
    by (auto simp: idxmin_def all_nan_def split: if_splits pandas.splits)
  ultimately show ?thesis by (simp add: lowest_def)
next
  case (Some kv)
  obtain k v where kv: "kv = (k, v)" by (cases kv)
  from Some kv have "arg_best (\<lambda>a b. - b < - a) None (map (\<lambda>k. (k, g k)) ks) = Some (k, v)"
    by simp
  from arg_best_first_extremum [OF assms(1) this] have "lowest g (set ks) (Some k)"
    by (auto simp: lowest_def)
  moreover from Some kv assms(2) have "res = Some k"
    by (auto simp: idxmin_def split: if_splits)
  ultimately show ?thesis by simp
qed

lemma series_analysis_table:
  "series f (analysis_table d) =
     map (\<lambda>k. (k, f (region_aggregate d k))) (sort (remdups (map region (rows d))))"
  by (simp add: series_def analysis_table_def groupby_def region_aggregate_def region_rows_def
      comp_def)

lemma set_region_keys: "set (sort (remdups (map region (rows d)))) = regions d"
  by (simp add: regions_def)

lemma rint_of_int: "rint (of_int n) = of_int n"
  by (simp add: rint_def)

lemma round2_300: "round2 (Some 300) = Some 300"
  using rint_of_int [of 30000] by (simp add: round2_def)

lemma round2_500: "round2 (Some 500) = Some 500"
  using rint_of_int [of 50000] by (simp add: round2_def)

lemma aggregate_fields:
  "GHI_mean (region_aggregate d r) = round2 (mean (column_cells GHI (region_rows d r)))"
  "GHI_std (region_aggregate d r) = round2 (std (column_cells GHI (region_rows d r)))"
  "Precipitation_sum (region_aggregate d r)
     = round2 (total (column_cells Precipitation (region_rows d r)))"
  "DNI_median (region_aggregate d r) = round2 (median (column_cells DNI (region_rows d r)))"
  by (simp_all add: region_aggregate_def aggregate_def)

lemma series_app_analysis_table:
  "series f (app_analysis_table d) =
     map (\<lambda>k. (k, f (app_aggregate (region_rows d k)))) (sort (remdups (map region (rows d))))"
  by (simp add: series_def app_analysis_table_def groupby_def region_rows_def comp_def)

lemma recommend_Inr:
  assumes "recommend pd analysis = Inr rec"
  shows "idxmax pd (series GHI_mean analysis) = Inr (Best_Overall_Potential rec)"
    and "idxmin pd (series GHI_std analysis) = Inr (Most_Stable_Radiation rec)"
    and "idxmin pd (series Precipitation_sum analysis) = Inr (Lowest_Maintenance_Risk rec)"
    and "idxmax pd (series DNI_median analysis) = Inr (Optimal_CSP_Location rec)"
  using assms by (auto simp: recommend_def split: sum.splits)

text \<open>What \<^verbatim>\<open>generate_recommendations\<close> of \<^verbatim>\<open>src/analysis.py\<close> returns when it returns: the
  first region, in sorted order, at the extremum of the rounded aggregate.\<close>

lemma recommendations_rounded_extrema:
  assumes "generate_recommendations pd d = Inr rec"
  shows "highest (\<lambda>r. round2 (mean (column_cells GHI (region_rows d r)))) (regions d)
           (Best_Overall_Potential rec)"
    and "lowest (\<lambda>r. round2 (std (column_cells GHI (region_rows d r)))) (regions d)
           (Most_Stable_Radiation rec)"
    and "lowest (\<lambda>r. round2 (total (column_cells Precipitation (region_rows d r)))) (regions d)
           (Lowest_Maintenance_Risk rec)"
    and "highest (\<lambda>r. round2 (median (column_cells DNI (region_rows d r)))) (regions d)
           (Optimal_CSP_Location rec)"
proof -
  let ?ks = "sort (remdups (map region (rows d)))"
  have sorted: "sorted ?ks" by simp
  from assms have run: "recommend pd (analysis_table d) = Inr rec"
    by (auto simp: generate_recommendations_def split: list.splits)
  show "highest (\<lambda>r. round2 (mean (column_cells GHI (region_rows d r)))) (regions d)
           (Best_Overall_Potential rec)"
    using idxmax_highest [OF sorted, of pd "\<lambda>r. GHI_mean (region_aggregate d r)"]
      recommend_Inr(1) [OF run]
    by (simp add: series_analysis_table regions_def aggregate_fields)
  show "lowest (\<lambda>r. round2 (std (column_cells GHI (region_rows d r)))) (regions d)
           (Most_Stable_Radiation rec)"
    using idxmin_lowest [OF sorted, of pd "\<lambda>r. GHI_std (region_aggregate d r)"]
      recommend_Inr(2) [OF run]
    by (simp add: series_analysis_table regions_def aggregate_fields)
  show "lowest (\<lambda>r. round2 (total (column_cells Precipitation (region_rows d r)))) (regions d)
           (Lowest_Maintenance_Risk rec)"
    using idxmin_lowest [OF sorted, of pd "\<lambda>r. Precipitation_sum (region_aggregate d r)"]
      recommend_Inr(3) [OF run]
    by (simp add: series_analysis_table regions_def aggregate_fields)
  show "highest (\<lambda>r. round2 (median (column_cells DNI (region_rows d r)))) (regions d)
           (Optimal_CSP_Location rec)"
    using idxmax_highest [OF sorted, of pd "\<lambda>r. DNI_median (region_aggregate d r)"]
      recommend_Inr(4) [OF run]
    by (simp add: series_analysis_table regions_def aggregate_fields)
qed

text \<open>The copy in \<^verbatim>\<open>scripts/app.py\<close> takes the extremum of the aggregate itself.\<close>

lemma app_recommendations_extrema:
  assumes "app_generate_recommendations pd d = Inr rec"
  shows "highest (\<lambda>r. mean (column_cells GHI (region_rows d r))) (regions d)
           (Best_Overall_Potential rec)"
    and "lowest (\<lambda>r. std (column_cells GHI (region_rows d r))) (regions d)
           (Most_Stable_Radiation rec)"
    and "lowest (\<lambda>r. total (column_cells Precipitation (region_rows d r))) (regions d)
           (Lowest_Maintenance_Risk rec)"
    and "highest (\<lambda>r. median (column_cells DNI (region_rows d r))) (regions d)
           (Optimal_CSP_Location rec)"
proof -
  let ?ks = "sort (remdups (map region (rows d)))"
  have sorted: "sorted ?ks" by simp
  from assms have run: "recommend pd (app_analysis_table d) = Inr rec"
    by (auto simp: app_generate_recommendations_def split: list.splits)
  show "highest (\<lambda>r. mean (column_cells GHI (region_rows d r))) (regions d)
           (Best_Overall_Potential rec)"
    using idxmax_highest [OF sorted, of pd "\<lambda>r. GHI_mean (app_aggregate (region_rows d r))"]
      recommend_Inr(1) [OF run]
    by (simp add: series_app_analysis_table regions_def app_aggregate_def)
  show "lowest (\<lambda>r. std (column_cells GHI (region_rows d r))) (regions d)
           (Most_Stable_Radiation rec)"
    using idxmin_lowest [OF sorted, of pd "\<lambda>r. GHI_std (app_aggregate (region_rows d r))"]
      recommend_Inr(2) [OF run]
    by (simp add: series_app_analysis_table regions_def app_aggregate_def)
  show "lowest (\<lambda>r. total (column_cells Precipitation (region_rows d r))) (regions d)
           (Lowest_Maintenance_Risk rec)"
    using idxmin_lowest [OF sorted, of pd "\<lambda>r. Precipitation_sum (app_aggregate (region_rows d r))"]
      recommend_Inr(3) [OF run]
    by (simp add: series_app_analysis_table regions_def app_aggregate_def)
  show "highest (\<lambda>r. median (column_cells DNI (region_rows d r))) (regions d)
           (Optimal_CSP_Location rec)"
    using idxmax_highest [OF sorted, of pd "\<lambda>r. DNI_median (app_aggregate (region_rows d r))"]
      recommend_Inr(4) [OF run]
    by (simp add: series_app_analysis_table regions_def app_aggregate_def)
qed

text \<open>The scenario of two regions with mean GHI 300 and 500.\<close>

lemma two_regions_scenario:
  assumes "generate_recommendations pd d = Inr rec" and "regions d = {A, B}"
    and "mean (column_cells GHI (region_rows d A)) = Some 300"
    and "mean (column_cells GHI (region_rows d B)) = Some 500"
  shows "Best_Overall_Potential rec = Some B"
proof (cases "Best_Overall_Potential rec")
  case None
  with recommendations_rounded_extrema(1) [OF assms(1)] assms(2,3) show ?thesis
    by (simp add: highest_def round2_300)
next
  case (Some r)
  with recommendations_rounded_extrema(1) [OF assms(1)] assms(2)
  have "r = A \<or> r = B" by (auto simp: highest_def)
  moreover have "r \<noteq> A"
  proof
    assume "r = A"
    with recommendations_rounded_extrema(1) [OF assms(1)] Some assms(2,3,4)
    have "(500::real) \<le> 300"
      by (auto simp: highest_def round2_300 round2_500)
    then show False by simp
  qed
  ultimately show ?thesis using Some by simp
qed

section \<open>Properties of the Cleaning-Impact Analyzer\<close>

lemma qualifies_iff: "qualifies d idx \<longleftrightarrow> 4 \<le> idx \<and> idx + 4 \<le> length (rows d)"
  by (auto simp: qualifies_def)

lemma impact_loop_none_qualifies:
  "\<forall>idx \<in> set idxs. \<not> qualifies d idx \<Longrightarrow> impact_loop d idxs results = Inr results"
  by (induction idxs) simp_all

lemma index_2_never_qualifies: "\<not> qualifies d 2"
  by (simp add: qualifies_def)

lemma index_3_never_qualifies: "\<not> qualifies d 3"
  by (simp add: qualifies_def)

text \<open>At the other end three rows after the event are enough.\<close>

lemma three_rows_after_suffice: "4 \<le> idx \<Longrightarrow> length (rows d) = idx + 4 \<Longrightarrow> qualifies d idx"
  by (simp add: qualifies_def)

lemma impact_loop_events:
  assumes "ModA \<in> set (columns d)" "ModB \<in> set (columns d)"
  shows "impact_loop d idxs results =
           Inr (results @ map (event_improvement d) (filter (qualifies d) idxs))"
  using assms by (induction idxs arbitrary: results) simp_all

section \<open>Properties of the Loader\<close>












section \<open>The stages in the store\<close>

lemma prefix_nth: "prefix xs ys \<Longrightarrow> i < length xs \<Longrightarrow> ys ! i = xs ! i"
  by (auto simp: prefix_def nth_append)

lemma prefix_list_update: "prefix xs ys \<Longrightarrow> length xs \<le> a \<Longrightarrow> prefix xs (ys[a := f])"
  by (auto simp: prefix_def list_update_append)

lemma frame_at_write_frame:
  "a < length (frames s) \<Longrightarrow> frame_at (write_frame a f s) a = f"
  by (simp add: frame_at_def write_frame_def)

lemma write_frame_twice: "write_frame a f (write_frame a g s) = write_frame a f s"
  by (simp add: write_frame_def)

lemma length_write_frame: "length (frames (write_frame a f s)) = length (frames s)"
  by (simp add: write_frame_def)

lemma write_frame_same: "write_frame a (frame_at s a) s = s"
  by (simp add: write_frame_def frame_at_def)

lemma store_clip_solar_write:
  "store_clip_solar a col s = write_frame a (clip_solar col (frame_at s a)) s"
  by (simp add: store_clip_solar_def clip_solar_def write_frame_same)

lemma store_clip_rh_write: "store_clip_rh a s = write_frame a (clip_rh (frame_at s a)) s"
  by (simp add: store_clip_rh_def clip_rh_def write_frame_same)

lemma fold_store_clip_solar:
  "a < length (frames s) \<Longrightarrow>
     fold (store_clip_solar a) cs s = write_frame a (fold clip_solar cs (frame_at s a)) s"
proof (induction cs arbitrary: s)
  case Nil
  show ?case by (simp add: write_frame_same)
next
  case (Cons c cs)
  from Cons.prems have "a < length (frames (store_clip_solar a c s))"
    by (simp add: store_clip_solar_write length_write_frame)
  from Cons.IH [OF this] Cons.prems show ?case
    by (simp add: store_clip_solar_write frame_at_write_frame write_frame_twice)
qed

lemma store_remove_outliers_step:
  assumes "a < length (frames s)"
  shows "fst (store_remove_outliers col (a, s)) < length (frames (snd (store_remove_outliers col (a, s))))"
    and "frame_at (snd (store_remove_outliers col (a, s))) (fst (store_remove_outliers col (a, s)))
           = remove_outliers col (frame_at s a)"
    and "prefix (frames s) (frames (snd (store_remove_outliers col (a, s))))"
    and "reports (snd (store_remove_outliers col (a, s))) = reports s"
  using assms
  by (auto simp: store_remove_outliers_def new_frame_def frame_at_def remove_outliers_def)

lemma fold_store_remove_outliers:
  assumes "a < length (frames s)"
  shows "fst (fold store_remove_outliers cs (a, s))
           < length (frames (snd (fold store_remove_outliers cs (a, s)))) \<and>
         frame_at (snd (fold store_remove_outliers cs (a, s)))
                  (fst (fold store_remove_outliers cs (a, s)))
           = fold remove_outliers cs (frame_at s a) \<and>
         prefix (frames s) (frames (snd (fold store_remove_outliers cs (a, s)))) \<and>
         reports (snd (fold store_remove_outliers cs (a, s))) = reports s"
  using assms
proof (induction cs arbitrary: a s)
  case Nil
  then show ?case by simp
next
  case (Cons c cs)
  obtain a' s' where step: "store_remove_outliers c (a, s) = (a', s')"
    by (cases "store_remove_outliers c (a, s)")
  from store_remove_outliers_step [OF Cons.prems, of c] step
  have a': "a' < length (frames s')" and f: "frame_at s' a' = remove_outliers c (frame_at s a)"
    and p: "prefix (frames s) (frames s')" and r: "reports s' = reports s"
    by simp_all
  from Cons.IH [OF a'] f p r step show ?case
    by (auto intro: prefix_order.order_trans)
qed

lemma store_clean_data_correct:
  assumes df: "df < length (frames s)"
  shows "prefix (frames s) (frames (snd (store_clean_data df s)))"
    and "reports (snd (store_clean_data df s)) = reports s"
    and "length (frames s) \<le> fst (store_clean_data df s)"
    and "fst (store_clean_data df s) < length (frames (snd (store_clean_data df s)))"
    and "frame_at (snd (store_clean_data df s)) (fst (store_clean_data df s))
           = clean_data (frame_at s df)"
proof -
  let ?n = "length (frames s)"
  define D0 where "D0 = drop_column Comments (frame_at s df)"
  define s2 where "s2 = s\<lparr>frames := frames s @ [D0, ffill D0]\<rparr>"
  define s4 where "s4 = write_frame (Suc ?n) (impute_and_clip (frame_at s df)) s2"
  define r where "r = fold store_remove_outliers OUTLIER_COLS (Suc ?n, s4)"
  have len2: "Suc ?n < length (frames s2)" by (simp add: s2_def)
  have at2: "frame_at s2 (Suc ?n) = ffill D0"
    by (simp add: s2_def frame_at_def nth_append)
  have s4_eq: "store_clip_rh (Suc ?n) (fold (store_clip_solar (Suc ?n)) SOLAR_COLS s2) = s4"
    using len2
    by (simp add: fold_store_clip_solar store_clip_rh_write frame_at_write_frame
        write_frame_twice at2 s4_def impute_and_clip_def D0_def)
  have e1: "new_frame (drop_column Comments (frame_at s df)) s
              = (?n, s\<lparr>frames := frames s @ [D0]\<rparr>)"
    by (simp add: new_frame_def D0_def)
  have e2: "new_frame (ffill (frame_at (s\<lparr>frames := frames s @ [D0]\<rparr>) ?n))
              (s\<lparr>frames := frames s @ [D0]\<rparr>) = (Suc ?n, s2)"
    by (simp add: new_frame_def frame_at_def s2_def)
  have unfold: "store_clean_data df s = new_frame (frame_at (snd r) (fst r)) (snd r)"
    unfolding store_clean_data_def e1 r_def
    by (simp only: Let_def prod.case e2 s4_eq) (simp only: case_prod_beta)
  have len4: "Suc ?n < length (frames s4)"
    using len2 by (simp add: s4_def length_write_frame)
  have at4: "frame_at s4 (Suc ?n) = impute_and_clip (frame_at s df)"
    using len2 by (simp add: s4_def frame_at_write_frame)
  have pre4: "prefix (frames s) (frames s4)"
    by (simp add: s4_def write_frame_def s2_def list_update_append)
  have rep4: "reports s4 = reports s"
    by (simp add: s4_def write_frame_def s2_def)
  from fold_store_remove_outliers [OF len4, of OUTLIER_COLS]
  have r1: "fst r < length (frames (snd r))"
    and r2: "frame_at (snd r) (fst r) = clean_data (frame_at s df)"
    and r3: "prefix (frames s4) (frames (snd r))"
    and r4: "reports (snd r) = reports s4"
    by (simp_all add: r_def at4 clean_data_def)
  from pre4 r3 have pre: "prefix (frames s) (frames (snd r))"
    by (rule prefix_order.order_trans)
  then have le: "?n \<le> length (frames (snd r))" by (rule prefix_length_le)
  show "prefix (frames s) (frames (snd (store_clean_data df s)))"
    using pre by (simp add: unfold new_frame_def)
  show "reports (snd (store_clean_data df s)) = reports s"
    using r4 rep4 by (simp add: unfold new_frame_def)
  show "length (frames s) \<le> fst (store_clean_data df s)"
    using le by (simp add: unfold new_frame_def)
  show "fst (store_clean_data df s) < length (frames (snd (store_clean_data df s)))"
    by (simp add: unfold new_frame_def)
  show "frame_at (snd (store_clean_data df s)) (fst (store_clean_data df s))
          = clean_data (frame_at s df)"
    using r2 by (simp add: unfold new_frame_def frame_at_def)
qed

lemma frames_write_report: "frames (write_report a r s) = frames s"
  by (simp add: write_report_def)

lemma frame_at_write_report: "frame_at (write_report a r s) df = frame_at s df"
  by (simp add: write_report_def frame_at_def)

lemma fold_write_report:
  "rep < length (reports t) \<Longrightarrow>
   fold (\<lambda>rng s'. write_report rep (range_step (frame_at s' df) rng (reports s' ! rep)) s') rs t
     = write_report rep (fold (range_step (frame_at t df)) rs (reports t ! rep)) t"
proof (induction rs arbitrary: t)
  case Nil
  show ?case by (simp add: write_report_def)
next
  case (Cons rng rs)
  let ?t = "write_report rep (range_step (frame_at t df) rng (reports t ! rep)) t"
  from Cons.prems have "rep < length (reports ?t)" by (simp add: write_report_def)
  from Cons.IH [OF this] Cons.prems show ?case
    by (simp add: frame_at_write_report) (simp add: write_report_def)
qed

lemma store_generate_quality_report_correct:
  "frames (snd (store_generate_quality_report df s)) = frames s"
  "reports (snd (store_generate_quality_report df s)) ! fst (store_generate_quality_report df s)
     = generate_quality_report (frame_at s df)"
  "prefix (reports s) (reports (snd (store_generate_quality_report df s)))"
proof -
  let ?s1 = "s\<lparr>reports := reports s @ [initial_report (frame_at s df)]\<rparr>"
  let ?rep = "length (reports s)"
  have l: "?rep < length (reports ?s1)" by simp
  have eq: "store_generate_quality_report df s =
          (?rep, write_report ?rep
                   (fold (range_step (frame_at ?s1 df)) ranges (reports ?s1 ! ?rep)) ?s1)"
    unfolding store_generate_quality_report_def new_report_def
    by (simp only: Let_def prod.case fold_write_report [OF l])
  show "frames (snd (store_generate_quality_report df s)) = frames s"
    by (simp add: eq write_report_def)
  show "reports (snd (store_generate_quality_report df s)) ! fst (store_generate_quality_report df s)
     = generate_quality_report (frame_at s df)"
    by (simp add: eq write_report_def generate_quality_report_def frame_at_def)
  show "prefix (reports s) (reports (snd (store_generate_quality_report df s)))"
    by (simp add: eq write_report_def)
qed

section \<open>Evaluating the pipeline on the example data\<close>

lemmas impute_eval = impute_and_clip_def SOLAR_COLS_def ALL_COLUMNS_def
  drop_column_def ffill_def fill_row_def clip_solar_def clip_rh_def assign_column_def clip_def
lemmas outlier_eval = remove_outliers_def column_values_def List.map_filter_simps quantile_def
  within_fences_def Let_def

lemmas pass_eval = OUTLIER_COLS_def SOLAR_COLS_def ALL_COLUMNS_def outlier_eval

lemma cells_reading:
  "cells (reading reg kvs) c =
     (if c = Comments then None else case map_of kvs c of None \<Rightarrow> Some 0 | Some x \<Rightarrow> x)"
  by (simp add: reading_def)

lemma impute_noisy_frame:
  "impute_and_clip noisy_frame =
     \<lparr>columns = removeAll Comments ALL_COLUMNS,
      rows = [reading ''Togo'' [(GHI, Some 0), (RH, Some 100)],
              reading ''Togo'' [(GHI, Some 10), (RH, Some 50)],
              reading ''Togo'' [(GHI, Some 12), (RH, Some 50)],
              reading ''Togo'' [(GHI, Some 15), (RH, Some 50)]]\<rparr>"
  by (simp add: noisy_frame_def impute_eval reading_def fun_eq_iff)

lemma clean_noisy_frame:
  "clean_data noisy_frame =
     \<lparr>columns = removeAll Comments ALL_COLUMNS,
      rows = [reading ''Togo'' [(GHI, Some 0), (RH, Some 100)],
              reading ''Togo'' [(GHI, Some 10), (RH, Some 50)],
              reading ''Togo'' [(GHI, Some 12), (RH, Some 50)],
              reading ''Togo'' [(GHI, Some 15), (RH, Some 50)]]\<rparr>"
  unfolding clean_data_def impute_noisy_frame
  by (simp add: pass_eval cells_reading)

lemma columns_noisy_frame: "columns noisy_frame = ALL_COLUMNS"
  by (simp add: noisy_frame_def)

lemma impute_drifting_frame:
  "impute_and_clip drifting_frame =
     \<lparr>columns = removeAll Comments ALL_COLUMNS,
      rows = [reading ''Benin'' [(GHI, Some 0)], reading ''Benin'' [(GHI, Some 0)],
              reading ''Benin'' [(GHI, Some 0)], reading ''Benin'' [(GHI, Some 1)],
              reading ''Benin'' [(GHI, Some 3)]]\<rparr>"
  by (simp add: drifting_frame_def impute_eval reading_def fun_eq_iff)

lemma clean_drifting_frame:
  "clean_data drifting_frame =
     \<lparr>columns = removeAll Comments ALL_COLUMNS,
      rows = [reading ''Benin'' [(GHI, Some 0)], reading ''Benin'' [(GHI, Some 0)],
              reading ''Benin'' [(GHI, Some 0)], reading ''Benin'' [(GHI, Some 1)]]\<rparr>"
  unfolding clean_data_def impute_drifting_frame by (simp add: pass_eval cells_reading)

lemma passes_cleaned_drifting_frame:
  "fold remove_outliers OUTLIER_COLS
     \<lparr>columns = removeAll Comments ALL_COLUMNS,
      rows = [reading ''Benin'' [(GHI, Some 0)], reading ''Benin'' [(GHI, Some 0)],
              reading ''Benin'' [(GHI, Some 0)], reading ''Benin'' [(GHI, Some 1)]]\<rparr> =
     \<lparr>columns = removeAll Comments ALL_COLUMNS,
      rows = [reading ''Benin'' [(GHI, Some 0)], reading ''Benin'' [(GHI, Some 0)],
              reading ''Benin'' [(GHI, Some 0)]]\<rparr>"
  by (simp add: pass_eval cells_reading)

lemma rows_ghi_scenario:
  "rows ghi_scenario =
     [reading ''Benin'' [(GHI, Some (- 5))], reading ''Benin'' [(GHI, Some 10)],
      reading ''Benin'' [(GHI, Some 2000)], reading ''Benin'' [(GHI, Some 15)],
      reading ''Benin'' [(GHI, Some 12)]]"
  by (simp add: ghi_scenario_def)

lemma impute_ghi_scenario:
  "impute_and_clip ghi_scenario =
     \<lparr>columns = removeAll Comments ALL_COLUMNS,
      rows = [reading ''Benin'' [(GHI, Some 0)], reading ''Benin'' [(GHI, Some 10)],
              reading ''Benin'' [(GHI, Some 2000)], reading ''Benin'' [(GHI, Some 15)],
              reading ''Benin'' [(GHI, Some 12)]]\<rparr>"
  by (simp add: ghi_scenario_def impute_eval reading_def fun_eq_iff)

lemma clean_ghi_scenario:
  "clean_data ghi_scenario =
     \<lparr>columns = removeAll Comments ALL_COLUMNS,
      rows = [reading ''Benin'' [(GHI, Some 10)], reading ''Benin'' [(GHI, Some 15)],
              reading ''Benin'' [(GHI, Some 12)]]\<rparr>"
  unfolding clean_data_def impute_ghi_scenario by (simp add: pass_eval cells_reading)

lemma rows_two_region_frame:
  "rows two_region_frame =
     [reading ''Benin'' [(RH, Some 40)], reading ''Benin'' [(RH, Some 45)],
      reading ''Togo'' [(RH, None)], reading ''Togo'' [(RH, Some 50)]]"
  by (simp add: two_region_frame_def)

lemma impute_two_region_frame:
  "impute_and_clip two_region_frame =
     \<lparr>columns = removeAll Comments ALL_COLUMNS,
      rows = [reading ''Benin'' [(RH, Some 40)], reading ''Benin'' [(RH, Some 45)],
              reading ''Togo'' [(RH, Some 45)], reading ''Togo'' [(RH, Some 50)]]\<rparr>"
  by (simp add: two_region_frame_def impute_eval reading_def fun_eq_iff)

lemma clean_two_region_frame:
  "clean_data two_region_frame =
     \<lparr>columns = removeAll Comments ALL_COLUMNS,
      rows = [reading ''Benin'' [(RH, Some 40)], reading ''Benin'' [(RH, Some 45)],
              reading ''Togo'' [(RH, Some 45)], reading ''Togo'' [(RH, Some 50)]]\<rparr>"
  unfolding clean_data_def impute_two_region_frame by (simp add: pass_eval cells_reading)

lemma region_reading: "region (reading reg kvs) = reg"
  by (simp add: reading_def)

lemma impute_maintenance_week:
  "impute_and_clip maintenance_week =
     \<lparr>columns = removeAll Comments ALL_COLUMNS,
      rows = [reading ''Benin'' [(ModA, Some 1)], reading ''Benin'' [(ModA, Some 1)],
              reading ''Benin'' [(ModA, Some 1)],
              reading ''Benin'' [(ModA, Some 1), (Cleaning, Some 1)],
              reading ''Benin'' [(ModA, Some 3)], reading ''Benin'' [(ModA, Some 3)],
              reading ''Benin'' [(ModA, Some 3)]]\<rparr>"
  by (simp add: maintenance_week_def impute_eval reading_def fun_eq_iff)

lemma clean_maintenance_week:
  "clean_data maintenance_week =
     \<lparr>columns = removeAll Comments ALL_COLUMNS,
      rows = [reading ''Benin'' [(ModA, Some 1)], reading ''Benin'' [(ModA, Some 1)],
              reading ''Benin'' [(ModA, Some 1)],
              reading ''Benin'' [(ModA, Some 1), (Cleaning, Some 1)],
              reading ''Benin'' [(ModA, Some 3)], reading ''Benin'' [(ModA, Some 3)],
              reading ''Benin'' [(ModA, Some 3)]]\<rparr>"
  unfolding clean_data_def impute_maintenance_week by (simp add: pass_eval cells_reading)

lemma impute_early_event_frame:
  "impute_and_clip early_event_frame =
     \<lparr>columns = removeAll Comments ALL_COLUMNS,
      rows = [reading ''Togo'' [(ModA, Some 1)], reading ''Togo'' [(ModA, Some 1)],
              reading ''Togo'' [(ModA, Some 1), (Cleaning, Some 1)],
              reading ''Togo'' [(ModA, Some 2)], reading ''Togo'' [(ModA, Some 2)],
              reading ''Togo'' [(ModA, Some 2)], reading ''Togo'' [(ModA, Some 2)],
              reading ''Togo'' [(ModA, Some 2)]]\<rparr>"
  by (simp add: early_event_frame_def impute_eval reading_def fun_eq_iff)

lemma clean_early_event_frame:
  "clean_data early_event_frame =
     \<lparr>columns = removeAll Comments ALL_COLUMNS,
      rows = [reading ''Togo'' [(ModA, Some 1)], reading ''Togo'' [(ModA, Some 1)],
              reading ''Togo'' [(ModA, Some 1), (Cleaning, Some 1)],
              reading ''Togo'' [(ModA, Some 2)], reading ''Togo'' [(ModA, Some 2)],
              reading ''Togo'' [(ModA, Some 2)], reading ''Togo'' [(ModA, Some 2)],
              reading ''Togo'' [(ModA, Some 2)]]\<rparr>"
  unfolding clean_data_def impute_early_event_frame by (simp add: pass_eval cells_reading)

lemmas analyzer_eval = analyze_cleaning_impact_def clean_events_def qualifies_def group_mean_def
  event_improvement_def loc_slice_def mean_def present_def List.map_filter_simps minus_cell_def
  groupby_def ALL_COLUMNS_def


lemma impute_close_means_frame:
  "impute_and_clip close_means_frame =
     \<lparr>columns = removeAll Comments ALL_COLUMNS,
      rows = [reading ''Benin'' [(GHI, Some 300.001)], reading ''Benin'' [(GHI, Some 300.001)],
              reading ''Togo'' [(GHI, Some 300.004)], reading ''Togo'' [(GHI, Some 300.004)]]\<rparr>"
  by (simp add: close_means_frame_def impute_eval reading_def fun_eq_iff)

lemma clean_close_means_frame:
  "clean_data close_means_frame =
     \<lparr>columns = removeAll Comments ALL_COLUMNS,
      rows = [reading ''Benin'' [(GHI, Some 300.001)], reading ''Benin'' [(GHI, Some 300.001)],
              reading ''Togo'' [(GHI, Some 300.004)], reading ''Togo'' [(GHI, Some 300.004)]]\<rparr>"
  unfolding clean_data_def impute_close_means_frame by (simp add: pass_eval cells_reading)

lemma means_close_means_frame:
  "mean (column_cells GHI (region_rows (clean_data close_means_frame) ''Benin'')) = Some 300.001"
  "mean (column_cells GHI (region_rows (clean_data close_means_frame) ''Togo'')) = Some 300.004"
  by (simp_all add: clean_close_means_frame region_rows_def region_reading column_cells_def
      cells_reading mean_def present_def List.map_filter_simps)

lemma table_close_means_frame:
  "series GHI_mean (analysis_table (clean_data close_means_frame)) =
     [(''Benin'', Some 300), (''Togo'', Some 300)]"
  by (simp add: clean_close_means_frame series_def analysis_table_def groupby_def
      region_reading aggregate_def column_cells_def cells_reading mean_def present_def
      List.map_filter_simps round2_def rint_def)

lemmas table_eval = series_def analysis_table_def groupby_def region_reading aggregate_def
  column_cells_def cells_reading mean_def std_def median_def total_def maximum_def present_def
  List.map_filter_simps round2_def rint_def Let_def

lemma tables_close_means_frame:
  "series GHI_std (analysis_table (clean_data close_means_frame)) =
     [(''Benin'', Some 0), (''Togo'', Some 0)]"
  "series Precipitation_sum (analysis_table (clean_data close_means_frame)) =
     [(''Benin'', Some 0), (''Togo'', Some 0)]"
  "series DNI_median (analysis_table (clean_data close_means_frame)) =
     [(''Benin'', Some 0), (''Togo'', Some 0)]"
  by (simp_all add: clean_close_means_frame table_eval)

lemmas app_table_eval = series_def app_analysis_table_def groupby_def region_reading
  app_aggregate_def column_cells_def cells_reading mean_def std_def median_def total_def
  maximum_def present_def List.map_filter_simps Let_def

lemma app_tables_close_means_frame:
  "series GHI_mean (app_analysis_table (clean_data close_means_frame)) =
     [(''Benin'', Some 300.001), (''Togo'', Some 300.004)]"
  "series GHI_std (app_analysis_table (clean_data close_means_frame)) =
     [(''Benin'', Some 0), (''Togo'', Some 0)]"
  "series Precipitation_sum (app_analysis_table (clean_data close_means_frame)) =
     [(''Benin'', Some 0), (''Togo'', Some 0)]"
  "series DNI_median (app_analysis_table (clean_data close_means_frame)) =
     [(''Benin'', Some 0), (''Togo'', Some 0)]"
  by (simp_all add: clean_close_means_frame app_table_eval)

lemma columns_present_close_means_frame:
  "filter (\<lambda>c. c \<notin> set (columns (clean_data close_means_frame)))
     [GHI, DNI, Tamb, Precipitation, WSgust] = []"
  by (simp add: columns_clean_data close_means_frame_def ALL_COLUMNS_def)

lemma impute_single_rows_frame:
  "impute_and_clip single_rows_frame =
     \<lparr>columns = removeAll Comments ALL_COLUMNS,
      rows = [reading ''Benin'' [(GHI, Some 300)], reading ''Togo'' [(GHI, Some 500)]]\<rparr>"
  by (simp add: single_rows_frame_def impute_eval reading_def fun_eq_iff)

lemma clean_single_rows_frame:
  "clean_data single_rows_frame =
     \<lparr>columns = removeAll Comments ALL_COLUMNS,
      rows = [reading ''Benin'' [(GHI, Some 300)], reading ''Togo'' [(GHI, Some 500)]]\<rparr>"
  unfolding clean_data_def impute_single_rows_frame by (simp add: pass_eval cells_reading)

lemma tables_single_rows_frame:
  "series GHI_mean (analysis_table (clean_data single_rows_frame)) =
     [(''Benin'', Some 300), (''Togo'', Some 500)]"
  "series GHI_std (analysis_table (clean_data single_rows_frame)) =
     [(''Benin'', None), (''Togo'', None)]"
  "series Precipitation_sum (analysis_table (clean_data single_rows_frame)) =
     [(''Benin'', Some 0), (''Togo'', Some 0)]"
  "series DNI_median (analysis_table (clean_data single_rows_frame)) =
     [(''Benin'', Some 0), (''Togo'', Some 0)]"
  by (simp_all add: clean_single_rows_frame table_eval)

text \<open>With one row in every region no standard deviation is defined: the label of the
  most stable region is NaN before pandas 3.0, and from 3.0 on the call raises.\<close>

lemma one_row_per_region_no_stable_region:
  "generate_recommendations Before_3 (clean_data single_rows_frame) =
     Inr \<lparr>Best_Overall_Potential = Some ''Togo'', Most_Stable_Radiation = None,
          Lowest_Maintenance_Risk = Some ''Benin'', Optimal_CSP_Location = Some ''Benin''\<rparr>"
  "generate_recommendations From_3 (clean_data single_rows_frame)
     = Inl (ValueError ''Encountered all NA values'')"
proof -
  have cols: "filter (\<lambda>c. c \<notin> set (columns (clean_data single_rows_frame)))
     [GHI, DNI, Tamb, Precipitation, WSgust] = []"
    by (simp add: columns_clean_data single_rows_frame_def ALL_COLUMNS_def)
  show "generate_recommendations Before_3 (clean_data single_rows_frame) =
     Inr \<lparr>Best_Overall_Potential = Some ''Togo'', Most_Stable_Radiation = None,
          Lowest_Maintenance_Risk = Some ''Benin'', Optimal_CSP_Location = Some ''Benin''\<rparr>"
    unfolding generate_recommendations_def cols
    by (simp add: recommend_def tables_single_rows_frame idxmax_def idxmin_def all_nan_def)
  show "generate_recommendations From_3 (clean_data single_rows_frame)
          = Inl (ValueError ''Encountered all NA values'')"
    unfolding generate_recommendations_def cols
    by (simp add: recommend_def tables_single_rows_frame idxmax_def idxmin_def all_nan_def)
qed

section \<open>The claims of the specification\<close>

subsection \<open>C1: the window of a cleaning event\<close>

text \<open>
  Claim C1. A Cleaning-flagged row at index 2 is left out, and a Cleaning-flagged row at
  index 3 of a Dataset of at least 7 rows is an event, with the means of rows 0 to 2 and of
  rows 4 to 6 as its \<open>pre\<close> and \<open>post\<close>. The guard of the loop asks for \<open>idx > 3\<close>, while
  its other half \<open>idx < len(df) - 3\<close> admits an event with exactly three rows after it:
  in a cleaned Dataset of 7 rows with its only event at index 3, both windows are there
  (means 1 and 3), the event is dropped all the same, and with no event left the analyzer
  raises.
\<close>

theorem event_at_index_3_excluded:
  "length (rows (clean_data maintenance_week)) = 7 \<and>
   clean_events (clean_data maintenance_week) = [3] \<and>
   mean (loc_slice 0 2 ModA (rows (clean_data maintenance_week))) = Some 1 \<and>
   mean (loc_slice 4 6 ModA (rows (clean_data maintenance_week))) = Some 3 \<and>
   \<not> qualifies (clean_data maintenance_week) 3 \<and>
   impact_loop (clean_data maintenance_week) (clean_events (clean_data maintenance_week)) [] = Inr [] \<and>
   analyze_cleaning_impact (clean_data maintenance_week) = Inl (KeyError ''Region'')"
  by (simp add: clean_maintenance_week analyzer_eval cells_reading upt_rec)

subsection \<open>C2: cleaning a cleaned Dataset\<close>

text \<open>
  Claim C2 says that the Cleaner is idempotent. It is not: the quartiles are computed again
  on the rows that are left, and a value that was inside the fences of the first run can
  be outside the narrower fences of the second. With GHI = [0, 0, 0, 1, 3] the first run
  removes 3 (fences [-1.5, 2.5]) and the second run removes 1 (fences [-0.375, 0.625]).
\<close>

theorem clean_data_not_idempotent:
  "clean_data (clean_data drifting_frame) \<noteq> clean_data drifting_frame"
proof -
  have "clean_data (clean_data drifting_frame) =
          fold remove_outliers OUTLIER_COLS (clean_data drifting_frame)"
    using impute_and_clip_fixed [OF imputed_clean_data, of drifting_frame]
    by (simp add: clean_data_def)
  then have "length (rows (clean_data (clean_data drifting_frame))) = 3"
    by (simp add: clean_drifting_frame passes_cleaned_drifting_frame)
  moreover have "length (rows (clean_data drifting_frame)) = 4"
    by (simp add: clean_drifting_frame)
  ultimately show ?thesis by auto
qed

text \<open>
  Claim C2, amended. Applying the Cleaner to \<open>clean_data d\<close> changes no value and adds no
  row: dropping the comments, forward fill and clipping leave \<open>clean_data d\<close> as it is,
  so the second run is the outlier pass alone, and its rows are a subsequence of the rows
  of \<open>clean_data d\<close>, over the same columns.
\<close>

theorem clean_data_twice:
  "clean_data (clean_data d) = fold remove_outliers OUTLIER_COLS (clean_data d) \<and>
   subseq (rows (clean_data (clean_data d))) (rows (clean_data d)) \<and>
   columns (clean_data (clean_data d)) = columns (clean_data d)"
proof -
  have eq: "clean_data (clean_data d) = fold remove_outliers OUTLIER_COLS (clean_data d)"
    using impute_and_clip_fixed [OF imputed_clean_data, of d]
    by (simp add: clean_data_def)
  then show ?thesis
    by (simp add: subseq_fold_remove_outliers columns_fold_remove_outliers)
qed

subsection \<open>C3: the fences of the outlier pass\<close>

text \<open>
  Claim C3 says that every value of an outlier-checked column of the returned Dataset lies
  within the fences computed from the quartiles of the returned Dataset. It fails on
  GHI = [0, 0, 0, 1, 3]: the returned GHI column is [0, 0, 0, 1], its quartiles are 0 and
  0.25, and the value 1 is above the upper fence 0.625.
\<close>

theorem final_fences_violated:
  "reading ''Benin'' [(GHI, Some 1)] \<in> set (rows (clean_data drifting_frame)) \<and>
   GHI \<in> set (columns (clean_data drifting_frame)) \<and>
   quantile (column_values GHI (rows (clean_data drifting_frame))) 0.25 = Some 0 \<and>
   quantile (column_values GHI (rows (clean_data drifting_frame))) 0.75 = Some 0.25 \<and>
   cells (reading ''Benin'' [(GHI, Some 1)]) GHI = Some 1 \<and>
   \<not> within_fences (quantile (column_values GHI (rows (clean_data drifting_frame))) 0.25)
                    (quantile (column_values GHI (rows (clean_data drifting_frame))) 0.75)
                    (cells (reading ''Benin'' [(GHI, Some 1)]) GHI)"
  by (simp add: clean_drifting_frame pass_eval cells_reading)

text \<open>
  Claim C3, amended. Every value of an outlier-checked column of the returned Dataset lies
  within the fences computed from the quartiles that column had when it was filtered, that
  is on the imputed and clipped Dataset filtered on the columns checked before it.
\<close>

theorem fences_at_filter_time:
  assumes "k < length OUTLIER_COLS" "OUTLIER_COLS ! k \<in> set (columns d)"
    and "r \<in> set (rows (clean_data d))"
  shows "within_fences
           (quantile (column_values (OUTLIER_COLS ! k) (rows (before_pass k d))) 0.25)
           (quantile (column_values (OUTLIER_COLS ! k) (rows (before_pass k d))) 0.75)
           (cells r (OUTLIER_COLS ! k))"
proof -
  let ?c = "OUTLIER_COLS ! k"
  from assms(1) have "?c \<in> set OUTLIER_COLS" by simp
  with assms(2) have present: "?c \<in> set (columns (before_pass k d))"
    by (simp add: before_pass_def columns_fold_remove_outliers columns_impute_and_clip
        outlier_not_Comments)
  from assms(3) have "r \<in> set (rows (remove_outliers ?c (before_pass k d)))"
    using set_rows_fold_remove_outliers
      [of "drop (Suc k) OUTLIER_COLS" "remove_outliers ?c (before_pass k d)"]
    by (auto simp: clean_data_split [OF assms(1), symmetric])
  with present show ?thesis by (simp add: rows_remove_outliers)
qed

theorem fences_at_filter_time_witness:
  "0 < length OUTLIER_COLS \<and> OUTLIER_COLS ! 0 = GHI \<and> GHI \<in> set (columns drifting_frame) \<and>
   reading ''Benin'' [(GHI, Some 1)] \<in> set (rows (clean_data drifting_frame)) \<and>
   quantile (column_values GHI (rows (before_pass 0 drifting_frame))) 0.25 = Some 0 \<and>
   quantile (column_values GHI (rows (before_pass 0 drifting_frame))) 0.75 = Some 1 \<and>
   within_fences
     (quantile (column_values GHI (rows (before_pass 0 drifting_frame))) 0.25)
     (quantile (column_values GHI (rows (before_pass 0 drifting_frame))) 0.75)
     (cells (reading ''Benin'' [(GHI, Some 1)]) GHI)"
proof -
  have k: "0 < length OUTLIER_COLS" and c: "OUTLIER_COLS ! 0 = GHI"
    by (simp_all add: OUTLIER_COLS_def SOLAR_COLS_def)
  have p: "GHI \<in> set (columns drifting_frame)"
    by (simp add: drifting_frame_def ALL_COLUMNS_def)
  have r: "reading ''Benin'' [(GHI, Some 1)] \<in> set (rows (clean_data drifting_frame))"
    by (simp add: clean_drifting_frame)
  have q: "quantile (column_values GHI (rows (before_pass 0 drifting_frame))) 0.25 = Some 0"
    "quantile (column_values GHI (rows (before_pass 0 drifting_frame))) 0.75 = Some 1"
    by (simp_all add: before_pass_0 impute_drifting_frame column_values_def
        List.map_filter_simps cells_reading quantile_def Let_def)
  from fences_at_filter_time [of 0 drifting_frame "reading ''Benin'' [(GHI, Some 1)]"] k c p r
  have "within_fences
     (quantile (column_values GHI (rows (before_pass 0 drifting_frame))) 0.25)
     (quantile (column_values GHI (rows (before_pass 0 drifting_frame))) 0.75)
     (cells (reading ''Benin'' [(GHI, Some 1)]) GHI)"
    by simp
  with k c p r q show ?thesis by blast
qed

subsection \<open>C4: the scenario GHI = [-5, 10, 2000, 15, 12]\<close>

text \<open>
  Claim C4 expects 4 rows to be left. After clipping the column is [0, 10, 2000, 15, 12],
  its quartiles are 10 and 15 and the fences are [2.5, 22.5]: the row with 2000 is rejected
  and so is the row whose -5 was clipped to 0. Three rows are left.
\<close>

theorem ghi_scenario_leaves_three_rows:
  "column_cells GHI (rows ghi_scenario) = [Some (- 5), Some 10, Some 2000, Some 15, Some 12] \<and>
   column_cells GHI (rows (impute_and_clip ghi_scenario)) =
     [Some 0, Some 10, Some 2000, Some 15, Some 12] \<and>
   column_cells GHI (rows (clean_data ghi_scenario)) = [Some 10, Some 15, Some 12] \<and>
   length (rows (clean_data ghi_scenario)) \<noteq> 4"
  by (simp add: clean_ghi_scenario impute_ghi_scenario rows_ghi_scenario column_cells_def
      cells_reading)

text \<open>
  Claim C4, amended. For a Dataset whose GHI column is [-5, 10, 2000, 15, 12] and whose
  other outlier-checked columns are absent or hold one value in every row, the Cleaner
  clips -5 to 0, and the outlier pass on GHI rejects both the row with 2000 and the row
  clipped to 0: the returned Dataset has exactly 3 rows, with GHI = [10, 15, 12].
\<close>

theorem ghi_scenario_three_rows:
  assumes "GHI \<in> set (columns d)"
    and "column_cells GHI (rows d) = [Some (- 5), Some 10, Some 2000, Some 15, Some 12]"
    and "\<forall>c \<in> set OUTLIER_COLS. c \<noteq> GHI \<longrightarrow> c \<in> set (columns d) \<longrightarrow> constant_column c (rows d)"
  shows "column_cells GHI (rows (impute_and_clip d)) =
           [Some 0, Some 10, Some 2000, Some 15, Some 12] \<and>
         column_cells GHI (rows (clean_data d)) = [Some 10, Some 15, Some 12] \<and>
         length (rows (clean_data d)) = 3"
proof -
  let ?D = "impute_and_clip d"
  let ?D1 = "remove_outliers GHI ?D"
  have clipped: "column_cells GHI (rows ?D) = [Some 0, Some 10, Some 2000, Some 15, Some 12]"
    using assms(1,2)
    by (simp add: column_cells_impute_and_clip column_clip_def SOLAR_COLS_def clip_def)
  have present: "GHI \<in> set (columns ?D)"
    using assms(1) by (simp add: columns_impute_and_clip)
  have q: "quantile (column_values GHI (rows ?D)) 0.25 = Some 10"
    "quantile (column_values GHI (rows ?D)) 0.75 = Some 15"
    by (simp_all add: column_values_cells clipped List.map_filter_simps quantile_def Let_def)
  have "rows ?D1 = filter (\<lambda>r. within_fences (Some 10) (Some 15) (cells r GHI)) (rows ?D)"
    using present q by (simp add: rows_remove_outliers)
  then have "column_cells GHI (rows ?D1) =
               filter (within_fences (Some 10) (Some 15)) (column_cells GHI (rows ?D))"
    by (simp only: column_cells_filter)
  then have kept: "column_cells GHI (rows ?D1) = [Some 10, Some 15, Some 12]"
    by (simp add: clipped within_fences_def)
  have "constant_column c (rows ?D1)"
    if c: "c \<in> set [DNI, DHI, ModA, ModB, Tamb, WS]" "c \<in> set (columns ?D1)" for c
  proof -
    from c(1) have "c \<in> set OUTLIER_COLS" "c \<noteq> GHI" "c \<noteq> Comments"
      by (auto simp: OUTLIER_COLS_Cons)
    moreover from c(2) have "c \<in> set (columns d)"
      by (simp add: columns_remove_outliers columns_impute_and_clip)
    ultimately have "constant_column c (rows ?D)"
      using assms(3) by (intro constant_column_impute_and_clip) auto
    then show ?thesis
      by (simp add: rows_remove_outliers constant_column_filter)
  qed
  then have "fold remove_outliers [DNI, DHI, ModA, ModB, Tamb, WS] ?D1 = ?D1"
    by (intro fold_remove_outliers_constant) blast
  then have "clean_data d = ?D1"
    by (simp add: clean_data_def OUTLIER_COLS_Cons)
  with kept clipped length_column_cells [of GHI "rows ?D1"] show ?thesis by simp
qed

theorem ghi_scenario_three_rows_witness:
  "GHI \<in> set (columns ghi_scenario) \<and>
   column_cells GHI (rows ghi_scenario) = [Some (- 5), Some 10, Some 2000, Some 15, Some 12] \<and>
   constant_column DNI (rows ghi_scenario) \<and> constant_column DHI (rows ghi_scenario) \<and>
   constant_column ModA (rows ghi_scenario) \<and> constant_column ModB (rows ghi_scenario) \<and>
   constant_column Tamb (rows ghi_scenario) \<and> constant_column WS (rows ghi_scenario) \<and>
   column_cells GHI (rows (impute_and_clip ghi_scenario)) =
     [Some 0, Some 10, Some 2000, Some 15, Some 12] \<and>
   column_cells GHI (rows (clean_data ghi_scenario)) = [Some 10, Some 15, Some 12] \<and>
   length (rows (clean_data ghi_scenario)) = 3"
proof -
  have 1: "GHI \<in> set (columns ghi_scenario)"
    by (simp add: ghi_scenario_def ALL_COLUMNS_def)
  have 2: "column_cells GHI (rows ghi_scenario) =
             [Some (- 5), Some 10, Some 2000, Some 15, Some 12]"
    by (simp add: rows_ghi_scenario column_cells_def cells_reading)
  have 3: "constant_column DNI (rows ghi_scenario)" "constant_column DHI (rows ghi_scenario)"
    "constant_column ModA (rows ghi_scenario)" "constant_column ModB (rows ghi_scenario)"
    "constant_column Tamb (rows ghi_scenario)" "constant_column WS (rows ghi_scenario)"
    by (simp_all add: constant_column_def rows_ghi_scenario cells_reading)
  then have 4: "\<forall>c \<in> set OUTLIER_COLS. c \<noteq> GHI \<longrightarrow> c \<in> set (columns ghi_scenario) \<longrightarrow>
                  constant_column c (rows ghi_scenario)"
    by (simp add: OUTLIER_COLS_Cons)
  from ghi_scenario_three_rows [OF 1 2 4] 1 2 3 show ?thesis by blast
qed

subsection \<open>C5: forward fill and completeness\<close>

text \<open>
  Claim C5 says that a column missing in the first rows of a region's run stays missing.
  Forward fill runs over the whole Dataset in row order and knows nothing of regions: the
  first row of the second region inherits the last value of the first region.
\<close>

theorem region_start_filled_across_regions:
  "region (rows two_region_frame ! 1) = ''Benin'' \<and>
   region (rows two_region_frame ! 2) = ''Togo'' \<and>
   cells (rows two_region_frame ! 2) RH = None \<and>
   RH \<in> set (columns (clean_data two_region_frame)) \<and>
   region (rows (clean_data two_region_frame) ! 2) = ''Togo'' \<and>
   cells (rows (clean_data two_region_frame) ! 2) RH = Some 45 \<and>
   cells (rows (clean_data two_region_frame) ! 2) RH \<noteq> None"
  by (simp add: rows_two_region_frame clean_two_region_frame region_reading cells_reading
      ALL_COLUMNS_def)

text \<open>
  Claim C5, amended. After the forward-fill step of the Cleaner, every cell of a column
  holds the most recent non-missing value of that column at or above its row, in the row
  order of the whole Dataset and across regions; it is missing exactly when the column is
  missing in every row down to it, so the first rows of the Dataset stay missing (no
  backward fill). Consequently a column whose cell in the first row of the input is not
  missing has no missing value in the cleaned Dataset.
\<close>

theorem forward_fill_most_recent:
  assumes "c \<noteq> Comments"
  shows "(\<forall>i < length (rows d).
            cells (rows (ffill (drop_column Comments d)) ! i) c =
              last_valid (take (Suc i) (column_cells c (rows d)))) \<and>
         (\<forall>i < length (rows d). (\<forall>j \<le> i. cells (rows d ! j) c = None) \<longrightarrow>
            cells (rows (ffill (drop_column Comments d)) ! i) c = None) \<and>
         (rows d \<noteq> [] \<and> cells (hd (rows d)) c \<noteq> None \<longrightarrow>
            (\<forall>r \<in> set (rows (clean_data d)). cells r c \<noteq> None))"
proof -
  let ?f = "ffill (drop_column Comments d)"
  have len: "length (rows ?f) = length (rows d)"
    by (simp add: ffill_def length_ffill_rows drop_column_def)
  have col: "column_cells c (rows ?f) = ffill_cells None (column_cells c (rows d))"
    using assms by (simp add: ffill_def column_cells_ffill_rows column_cells_drop_column)
  have a: "cells (rows ?f ! i) c = last_valid (take (Suc i) (column_cells c (rows d)))"
    if "i < length (rows d)" for i
  proof -
    from that len have "cells (rows ?f ! i) c = column_cells c (rows ?f) ! i"
      by (simp add: cell_of_column)
    also have "\<dots> = (case last_valid (take (Suc i) (column_cells c (rows d))) of
                       None \<Rightarrow> None | Some v \<Rightarrow> Some v)"
      using that by (simp add: col ffill_cells_nth length_column_cells)
    finally show ?thesis by (simp split: option.splits)
  qed
  have b: "cells (rows ?f ! i) c = None"
    if i: "i < length (rows d)" and none: "\<forall>j \<le> i. cells (rows d ! j) c = None" for i
  proof -
    have "\<forall>x \<in> set (take (Suc i) (column_cells c (rows d))). x = None"
    proof
      fix x assume "x \<in> set (take (Suc i) (column_cells c (rows d)))"
      then obtain j where j: "j < Suc i" "j < length (rows d)" "x = column_cells c (rows d) ! j"
        by (auto simp: in_set_conv_nth length_column_cells)
      with none show "x = None" by (simp add: column_cells_def)
    qed
    then show ?thesis by (simp add: a [OF i] last_valid_None)
  qed
  have c: "cells r c \<noteq> None"
    if ne: "rows d \<noteq> []" and first: "cells (hd (rows d)) c \<noteq> None"
      and r: "r \<in> set (rows (clean_data d))" for r
  proof -
    from ne obtain r0 rs where rows: "rows d = r0 # rs" by (cases "rows d") auto
    with first obtain v where v: "cells r0 c = Some v" by auto
    have "None \<notin> set (ffill_cells None (column_cells c (rows d)))"
      using ffill_cells_no_gap [of "Some v" "column_cells c rs"]
      by (simp add: rows column_cells_def v)
    then have "None \<notin> set (column_cells c (rows (impute_and_clip d)))"
      by (auto simp: column_cells_impute_and_clip [OF assms] column_clip_None
          dest!: sym [of None])
    moreover from r have "r \<in> set (rows (impute_and_clip d))"
      using set_rows_fold_remove_outliers [of OUTLIER_COLS "impute_and_clip d"]
      by (auto simp: clean_data_def)
    ultimately show ?thesis by (force simp: column_cells_def)
  qed
  from a b c show ?thesis by blast
qed

theorem forward_fill_most_recent_witness:
  "RH \<noteq> Comments \<and> 2 < length (rows two_region_frame) \<and>
   cells (rows (ffill (drop_column Comments two_region_frame)) ! 2) RH =
     last_valid (take (Suc 2) (column_cells RH (rows two_region_frame))) \<and>
   last_valid (take (Suc 2) (column_cells RH (rows two_region_frame))) = Some 45 \<and>
   rows two_region_frame \<noteq> [] \<and> cells (hd (rows two_region_frame)) RH \<noteq> None \<and>
   reading ''Togo'' [(RH, Some 45)] \<in> set (rows (clean_data two_region_frame)) \<and>
   cells (reading ''Togo'' [(RH, Some 45)]) RH \<noteq> None"
proof -
  have 1: "RH \<noteq> Comments" by simp
  have 2: "2 < length (rows two_region_frame)"
    "rows two_region_frame \<noteq> []" "cells (hd (rows two_region_frame)) RH \<noteq> None"
    by (simp_all add: rows_two_region_frame cells_reading)
  have 3: "last_valid (take (Suc 2) (column_cells RH (rows two_region_frame))) = Some 45"
    by (simp add: rows_two_region_frame column_cells_def cells_reading last_valid_def
        present_def List.map_filter_simps)
  have 4: "reading ''Togo'' [(RH, Some 45)] \<in> set (rows (clean_data two_region_frame))"
    by (simp add: clean_two_region_frame)
  from forward_fill_most_recent [OF 1, of two_region_frame] 1 2 3 4 show ?thesis
    by blast
qed

subsection \<open>C6: non-negative solar columns, relative humidity within 0 and 100\<close>

text \<open>
  Claim C6. In the Dataset the Cleaner returns, every value of every solar column
  (GHI, DNI, DHI, ModA, ModB) of the input is at least 0, and every RH value is between 0
  and 100. For a solar column the cell is moreover never missing, since the outlier pass
  on that column drops every row whose cell is missing; an RH cell may still be missing,
  and then it holds no value.
\<close>

theorem cleaned_values_in_range:
  assumes "r \<in> set (rows (clean_data d))"
  shows "(\<forall>c \<in> set SOLAR_COLS. c \<in> set (columns d) \<longrightarrow> (\<exists>v. cells r c = Some v \<and> 0 \<le> v)) \<and>
         (RH \<in> set (columns d) \<longrightarrow> (\<forall>v. cells r RH = Some v \<longrightarrow> 0 \<le> v \<and> v \<le> 100))"
proof -
  from assms have mem: "r \<in> set (rows (impute_and_clip d))"
    using set_rows_fold_remove_outliers [of OUTLIER_COLS "impute_and_clip d"]
    by (auto simp: clean_data_def)
  have solar: "\<exists>v. cells r c = Some v \<and> 0 \<le> v"
    if c: "c \<in> set SOLAR_COLS" "c \<in> set (columns d)" for c
  proof -
    from c have "c \<in> set OUTLIER_COLS" "c \<in> set (columns (impute_and_clip d))"
      by (simp_all add: OUTLIER_COLS_def columns_impute_and_clip solar_not_Comments)
    with assms have "cells r c \<noteq> None"
      unfolding clean_data_def by (intro checked_cells_present)
    then obtain v where v: "cells r c = Some v" by auto
    moreover from impute_and_clip_solar [OF c] mem v have "0 \<le> v"
      by (auto simp: lower_bounded_def)
    ultimately show ?thesis by simp
  qed
  have rh: "0 \<le> v \<and> v \<le> 100" if "RH \<in> set (columns d)" "cells r RH = Some v" for v
    using impute_and_clip_rh [OF that(1)] mem that(2)
    by (auto simp: lower_bounded_def upper_bounded_def)
  from solar rh show ?thesis by blast
qed

theorem cleaned_values_in_range_witness:
  "reading ''Togo'' [(GHI, Some 0), (RH, Some 100)] \<in> set (rows (clean_data noisy_frame)) \<and>
   GHI \<in> set SOLAR_COLS \<and> GHI \<in> set (columns noisy_frame) \<and> RH \<in> set (columns noisy_frame) \<and>
   cells (reading ''Togo'' [(GHI, Some 0), (RH, Some 100)]) GHI = Some 0 \<and>
   cells (reading ''Togo'' [(GHI, Some 0), (RH, Some 100)]) RH = Some 100 \<and>
   (0::real) \<le> 0 \<and> (0::real) \<le> 100 \<and> (100::real) \<le> 100"
  using cleaned_values_in_range [of "reading ''Togo'' [(GHI, Some 0), (RH, Some 100)]" noisy_frame]
  by (simp add: clean_noisy_frame cells_reading SOLAR_COLS_def columns_noisy_frame ALL_COLUMNS_def)

subsection \<open>C7: loading all regions\<close>




subsection \<open>C8: the recommendations\<close>

text \<open>
  Claim C8. \<open>Best Overall Potential\<close> is the region with the highest mean GHI.
  \<^verbatim>\<open>generate_recommendations\<close> of \<^verbatim>\<open>src/analysis.py\<close> rounds the table of aggregates to two
  decimals before it takes the extremum: on a cleaned Dataset where the mean GHI is 300.001
  in Benin and 300.004 in Togo both round to 300.0, and Benin, the first of the two, is
  returned, with either release of pandas. The copy of the function in
  \<^verbatim>\<open>scripts/app.py\<close> does not round and returns Togo, the region with the highest mean.
\<close>

theorem rounding_hides_highest_mean:
  "mean (column_cells GHI (region_rows (clean_data close_means_frame) ''Benin'')) = Some 300.001 \<and>
   mean (column_cells GHI (region_rows (clean_data close_means_frame) ''Togo'')) = Some 300.004 \<and>
   series GHI_mean (analysis_table (clean_data close_means_frame)) =
     [(''Benin'', Some 300), (''Togo'', Some 300)] \<and>
   generate_recommendations Before_3 (clean_data close_means_frame) =
     Inr \<lparr>Best_Overall_Potential = Some ''Benin'', Most_Stable_Radiation = Some ''Benin'',
          Lowest_Maintenance_Risk = Some ''Benin'', Optimal_CSP_Location = Some ''Benin''\<rparr> \<and>
   generate_recommendations From_3 (clean_data close_means_frame) =
     Inr \<lparr>Best_Overall_Potential = Some ''Benin'', Most_Stable_Radiation = Some ''Benin'',
          Lowest_Maintenance_Risk = Some ''Benin'', Optimal_CSP_Location = Some ''Benin''\<rparr> \<and>
   app_generate_recommendations Before_3 (clean_data close_means_frame) =
     Inr \<lparr>Best_Overall_Potential = Some ''Togo'', Most_Stable_Radiation = Some ''Benin'',
          Lowest_Maintenance_Risk = Some ''Benin'', Optimal_CSP_Location = Some ''Benin''\<rparr> \<and>
   app_generate_recommendations From_3 (clean_data close_means_frame) =
     Inr \<lparr>Best_Overall_Potential = Some ''Togo'', Most_Stable_Radiation = Some ''Benin'',
          Lowest_Maintenance_Risk = Some ''Benin'', Optimal_CSP_Location = Some ''Benin''\<rparr>"
proof -
  have src: "generate_recommendations pd (clean_data close_means_frame) =
     Inr \<lparr>Best_Overall_Potential = Some ''Benin'', Most_Stable_Radiation = Some ''Benin'',
          Lowest_Maintenance_Risk = Some ''Benin'', Optimal_CSP_Location = Some ''Benin''\<rparr>" for pd
    unfolding generate_recommendations_def columns_present_close_means_frame
    by (simp add: recommend_def table_close_means_frame tables_close_means_frame
        idxmax_def idxmin_def)
  have app: "app_generate_recommendations pd (clean_data close_means_frame) =
     Inr \<lparr>Best_Overall_Potential = Some ''Togo'', Most_Stable_Radiation = Some ''Benin'',
          Lowest_Maintenance_Risk = Some ''Benin'', Optimal_CSP_Location = Some ''Benin''\<rparr>" for pd
    unfolding app_generate_recommendations_def columns_present_close_means_frame
    by (simp add: recommend_def app_tables_close_means_frame idxmax_def idxmin_def)
  from src app means_close_means_frame table_close_means_frame show ?thesis by simp
qed

subsection \<open>C9: the Quality Reporter and the Cleaner do not mutate their input\<close>

text \<open>
  Claim C9. After \<open>generate_quality_report(df)\<close> and after \<open>clean_data(df)\<close> the DataFrame
  at the address \<open>df\<close> is what it was. The reporter writes only into the report it
  builds. The cleaner writes only into the DataFrame that \<open>drop(...).ffill()\<close> returned,
  and every object that was in the store before the call is unchanged; its result is a new
  object, which holds \<open>clean_data\<close> of the input.
\<close>

theorem stages_leave_input_unchanged:
  assumes "df < length (frames s)"
  shows "frame_at (snd (store_generate_quality_report df s)) df = frame_at s df \<and>
         frames (snd (store_generate_quality_report df s)) = frames s \<and>
         reports (snd (store_generate_quality_report df s))
             ! fst (store_generate_quality_report df s)
           = generate_quality_report (frame_at s df) \<and>
         frame_at (snd (store_clean_data df s)) df = frame_at s df \<and>
         prefix (frames s) (frames (snd (store_clean_data df s))) \<and>
         reports (snd (store_clean_data df s)) = reports s \<and>
         length (frames s) \<le> fst (store_clean_data df s) \<and>
         frame_at (snd (store_clean_data df s)) (fst (store_clean_data df s))
           = clean_data (frame_at s df)"
proof -
  have "frame_at (snd (store_clean_data df s)) df = frame_at s df"
    using prefix_nth [OF store_clean_data_correct(1) [OF assms] assms]
    by (simp add: frame_at_def)
  moreover have "frame_at (snd (store_generate_quality_report df s)) df = frame_at s df"
    by (simp add: frame_at_def store_generate_quality_report_correct(1))
  ultimately show ?thesis
    using store_clean_data_correct [OF assms] store_generate_quality_report_correct [where df = df and s = s]
    by simp
qed

theorem stages_leave_input_unchanged_witness:
  "0 < length (frames one_frame_store) \<and>
   frame_at (snd (store_generate_quality_report 0 one_frame_store)) 0 = noisy_frame \<and>
   frame_at (snd (store_clean_data 0 one_frame_store)) 0 = noisy_frame \<and>
   1 \<le> fst (store_clean_data 0 one_frame_store) \<and>
   frame_at (snd (store_clean_data 0 one_frame_store)) (fst (store_clean_data 0 one_frame_store))
     = clean_data noisy_frame \<and>
   clean_data noisy_frame \<noteq> noisy_frame"
proof -
  have 1: "0 < length (frames one_frame_store)"
    and 2: "frame_at one_frame_store 0 = noisy_frame"
    and 3: "length (frames one_frame_store) = 1"
    by (simp_all add: one_frame_store_def frame_at_def)
  have 4: "clean_data noisy_frame \<noteq> noisy_frame"
  proof
    assume "clean_data noisy_frame = noisy_frame"
    then have "columns (clean_data noisy_frame) = columns noisy_frame" by simp
    then show False
      by (simp add: columns_clean_data columns_noisy_frame ALL_COLUMNS_def)
  qed
  from stages_leave_input_unchanged [OF 1] 1 2 3 4 show ?thesis by simp
qed

subsection \<open>C10: no qualifying event\<close>

text \<open>
  Claim C10. On a Dataset in which no Cleaning-flagged row is at a qualifying index, the
  Cleaning-Impact Analyzer raises instead of returning an empty mapping: the list of
  results is empty, and grouping the DataFrame built from it by \<open>Region\<close> is a
  \<open>KeyError\<close> (without a \<open>Cleaning\<close> column the lookup of that column raises first).
\<close>

theorem no_qualifying_event_raises:
  assumes "\<forall>idx \<in> set (clean_events d). \<not> qualifies d idx"
  shows "analyze_cleaning_impact d =
           Inl (KeyError (if Cleaning \<in> set (columns d) then ''Region'' else ''Cleaning''))"
  using impact_loop_none_qualifies [OF assms, of "[]"]
  by (simp add: analyze_cleaning_impact_def group_mean_def)

theorem no_qualifying_event_raises_witness:
  "clean_events (clean_data early_event_frame) = [2] \<and>
   \<not> qualifies (clean_data early_event_frame) 2 \<and>
   Cleaning \<in> set (columns (clean_data early_event_frame)) \<and>
   analyze_cleaning_impact (clean_data early_event_frame) = Inl (KeyError ''Region'')"
proof -
  have 1: "clean_events (clean_data early_event_frame) = [2]"
    by (simp add: clean_early_event_frame clean_events_def cells_reading upt_rec)
  have 2: "\<not> qualifies (clean_data early_event_frame) 2"
    by (simp add: qualifies_def)
  have 3: "Cleaning \<in> set (columns (clean_data early_event_frame))"
    by (simp add: clean_early_event_frame ALL_COLUMNS_def)
  from 1 2 have "\<forall>idx \<in> set (clean_events (clean_data early_event_frame)).
                   \<not> qualifies (clean_data early_event_frame) idx"
    by simp
  from no_qualifying_event_raises [OF this] 1 2 3 show ?thesis by simp
qed

end
